theory Spec2Isabelle
  imports Complex_Main
begin

section \<open>Shared data model (src/shared/scene.ts, src/shared/vectorShapes.ts)\<close>

text \<open>
  A vector shape as the geometric stabilizer reads it: the discriminator \<open>type\<close>, the
  four numeric fields a rect carries (absent on other variants, hence optional) and the
  remaining properties (id, fill, stroke, ...) kept as they are. JavaScript numbers are
  modelled as reals (JSON carries neither NaN nor infinities); the functions below only
  compare, add and subtract them.
\<close>

record shape =
  s_type :: string
  s_x :: "real option"
  s_y :: "real option"
  s_width :: "real option"
  s_height :: "real option"
  s_other :: "(string \<times> string) list"

record transform =
  t_x :: real
  t_y :: real
  t_scale :: real
  t_rotation :: real

text \<open>\<open>Partial<Transform>\<close>: every field may be missing.\<close>

record partial_transform =
  pt_x :: "real option"
  pt_y :: "real option"
  pt_scale :: "real option"
  pt_rotation :: "real option"

text \<open>
  A scene object as the reducer's table can hold it at run time. A validated
  \<open>SceneObject\<close> has every field but \<open>semanticTag\<close>; the reducer however builds
  objects by spreading whatever \<open>scene.objects[id]\<close> returned, so each property is
  optional here. \<open>status\<close> and \<open>layer\<close> are the strings they are in JavaScript.
\<close>

record scene_object =
  o_id :: "string option"
  o_status :: "string option"
  o_layer :: "string option"
  o_transform :: "transform option"
  o_semanticTag :: "string option"
  o_shapes :: "shape list option"

record scene_intent =
  description :: string
  mood :: "string option"
  paletteHint :: "string option"

record point =
  px :: real
  py :: real

record gradient =
  g_from :: point
  g_to :: point
  g_stops :: "(real \<times> string) list"

record scene_graph =
  intent :: "scene_intent option"
  objects :: "string \<rightharpoonup> scene_object"
  order :: "string list"

section \<open>Command grammar (src/shared/commands.ts)\<close>

text \<open>
  The patch of an update command, with the field types of the reducer's cast
  \<open>command.patch as Partial<SceneObject>\<close>; \<open>layer\<close> and \<open>status\<close> stay arbitrary
  strings, since \<open>PatchSchema\<close> accepts any value for them.
\<close>

record patch =
  p_layer :: "string option"
  p_status :: "string option"
  p_transform :: "partial_transform option"
  p_semanticTag :: "string option"
  p_shapes :: "shape list option"

datatype command =
    SetSceneIntent "scene_intent option"
  | AddPreviewObject scene_object
  | UpdatePreviewObject string patch
  | CommitPreviewObject string
  | CancelPreviewObject string
  | AddObject scene_object
  | UpdateObject string patch
  | DeleteObject string
  | SetBackgroundGradient gradient
  | SetGroundFill string
  | SetPath string "point list" real real
  | Batch "command list"

section \<open>Ordering keys (src/shared/layering.ts)\<close>

text \<open>The result of JavaScript arithmetic on an order key: an integer or \<open>NaN\<close>.\<close>

datatype number = Num int | NaN

definition BACKDROP_TAGS :: "string list" where
  "BACKDROP_TAGS = [''sky'', ''field'', ''grass'', ''ground'', ''water'', ''sand'',
     ''background_backdrop'', ''backdrop'']"

definition LAYER_RANK :: "(string \<times> int) list" where
  "LAYER_RANK = [(''sky'', 0), (''background'', 1), (''ground'', 2), (''foreground'', 3)]"

text \<open>
  \<open>LAYER_RANK\<close> and \<open>scene.objects\<close> are plain object literals, so a property read
  that finds no own property continues on \<open>Object.prototype\<close>. These are its members;
  each is a function (or, for \<open>__proto__\<close>, the prototype object itself): truthy, not
  nullish, and without any of the properties of a scene object.
\<close>

definition objectPrototypeKeys :: "string list" where
  "objectPrototypeKeys = [''constructor'', ''hasOwnProperty'', ''isPrototypeOf'',
     ''propertyIsEnumerable'', ''toLocaleString'', ''toString'', ''valueOf'', ''__proto__'',
     ''__defineGetter__'', ''__defineSetter__'', ''__lookupGetter__'', ''__lookupSetter__'']"

text \<open>
  Strings are lists of 8-bit characters; \<open>String.prototype.toLowerCase\<close> is modelled on
  the ASCII letters, the only ones the backdrop tags are made of.
\<close>

definition lowerChar :: "char \<Rightarrow> char" where
  "lowerChar c = (let n = (of_char c :: nat) in if 65 \<le> n \<and> n \<le> 90 then char_of (n + 32) else c)"

definition toLowerCase :: "string \<Rightarrow> string" where
  "toLowerCase s = map lowerChar s"

definition isBackdrop :: "string option \<Rightarrow> bool" where
  "isBackdrop semanticTag =
     (case semanticTag of
        None \<Rightarrow> False
      | Some t \<Rightarrow> if t = [] then False else toLowerCase t \<in> set BACKDROP_TAGS)"

text \<open>
  \<open>LAYER_RANK[layer] ?? 9\<close>. An undefined layer reads the key \<open>"undefined"\<close>, which is
  missing; a layer naming a member of \<open>Object.prototype\<close> reads that member, which is not
  nullish and turns the key arithmetic into \<open>NaN\<close>.
\<close>

definition getLayerRank :: "string option \<Rightarrow> number" where
  "getLayerRank layer =
     (case layer of
        None \<Rightarrow> Num 9
      | Some l \<Rightarrow>
          (case map_of LAYER_RANK l of
             Some r \<Rightarrow> Num r
           | None \<Rightarrow> if l \<in> set objectPrototypeKeys then NaN else Num 9))"

definition getBackdropRank :: "string option \<Rightarrow> int" where
  "getBackdropRank semanticTag = (if isBackdrop semanticTag then 0 else 1)"

definition computeOrderKey :: "string option \<Rightarrow> string option \<Rightarrow> number" where
  "computeOrderKey layer semanticTag =
     (let br = getBackdropRank semanticTag in
      case getLayerRank layer of
        Num lr \<Rightarrow> Num (lr * 100 + br * 10)
      | NaN \<Rightarrow> NaN)"

text \<open>The comparisons \<open>a > b\<close> and \<open>a === b\<close> on numbers: both are false on \<open>NaN\<close>.\<close>

fun greater :: "number \<Rightarrow> number \<Rightarrow> bool" where
  "greater (Num a) (Num b) = (a > b)"
| "greater _ _ = False"

fun strictEq :: "number \<Rightarrow> number \<Rightarrow> bool" where
  "strictEq (Num a) (Num b) = (a = b)"
| "strictEq _ _ = False"

section \<open>The reducer (src/server/reducer.ts)\<close>

definition clamp :: "real \<Rightarrow> real \<Rightarrow> real \<Rightarrow> real" where
  "clamp n lo hi = max lo (min hi n)"

definition clampTransform :: "partial_transform \<Rightarrow> transform" where
  "clampTransform t =
     \<lparr> t_x = clamp (case pt_x t of Some v \<Rightarrow> v | None \<Rightarrow> 50) 0 100,
       t_y = clamp (case pt_y t of Some v \<Rightarrow> v | None \<Rightarrow> 50) 0 100,
       t_scale = clamp (case pt_scale t of Some v \<Rightarrow> v | None \<Rightarrow> 1) (1 / 10) 3,
       t_rotation = clamp (case pt_rotation t of Some v \<Rightarrow> v | None \<Rightarrow> 0) (- 180) 180 \<rparr>"

definition orderKey :: "scene_object \<Rightarrow> number" where
  "orderKey obj = computeOrderKey (o_layer obj) (o_semanticTag obj)"

text \<open>
  What an inherited member of \<open>Object.prototype\<close> looks like to the reducer: every
  property it reads (\<open>layer\<close>, \<open>semanticTag\<close>, \<open>status\<close>, \<open>transform\<close>) is undefined
  and spreading it copies nothing.
\<close>

definition inheritedMember :: scene_object where
  "inheritedMember = \<lparr> o_id = None, o_status = None, o_layer = None, o_transform = None,
     o_semanticTag = None, o_shapes = None \<rparr>"

text \<open>The property read \<open>scene.objects[id]\<close>; \<open>None\<close> is \<open>undefined\<close>.\<close>

definition getObject :: "scene_graph \<Rightarrow> string \<Rightarrow> scene_object option" where
  "getObject scene k =
     (case objects scene k of
        Some v \<Rightarrow> Some v
      | None \<Rightarrow> if k \<in> set objectPrototypeKeys then Some inheritedMember else None)"

text \<open>
  The loop of \<open>insertIntoOrder\<close>: the index of the first id whose object has a key
  greater than \<open>k\<close>; ids without an object are skipped.
\<close>

fun findInsertIndex :: "scene_graph \<Rightarrow> number \<Rightarrow> string list \<Rightarrow> nat" where
  "findInsertIndex scene k [] = 0"
| "findInsertIndex scene k (otherId # rest) =
     (case getObject scene otherId of
        None \<Rightarrow> Suc (findInsertIndex scene k rest)
      | Some other \<Rightarrow>
          if greater (orderKey other) k then 0 else Suc (findInsertIndex scene k rest))"

definition insertIntoOrder :: "scene_graph \<Rightarrow> string \<Rightarrow> string list" where
  "insertIntoOrder scene ident =
     (case getObject scene ident of
        None \<Rightarrow> order scene
      | Some obj \<Rightarrow>
          (let k = orderKey obj;
               without = filter (\<lambda>x. x \<noteq> ident) (order scene);
               idx = findInsertIndex scene k without
           in take idx without @ ident # drop idx without))"

definition createEmptyScene :: scene_graph where
  "createEmptyScene = \<lparr> intent = None, objects = Map.empty, order = [] \<rparr>"

text \<open>\<open>{ ...existing.transform, ...patch.transform }\<close>\<close>

definition spreadTransform :: "transform option \<Rightarrow> partial_transform \<Rightarrow> partial_transform" where
  "spreadTransform existing p =
     \<lparr> pt_x = (case pt_x p of Some v \<Rightarrow> Some v | None \<Rightarrow> map_option t_x existing),
       pt_y = (case pt_y p of Some v \<Rightarrow> Some v | None \<Rightarrow> map_option t_y existing),
       pt_scale = (case pt_scale p of Some v \<Rightarrow> Some v | None \<Rightarrow> map_option t_scale existing),
       pt_rotation = (case pt_rotation p of Some v \<Rightarrow> Some v | None \<Rightarrow> map_option t_rotation existing) \<rparr>"

text \<open>The object key of an add command: \<open>obj.id\<close> used as a property name.\<close>

definition objectKey :: "scene_object \<Rightarrow> string" where
  "objectKey obj = (case o_id obj of Some i \<Rightarrow> i | None \<Rightarrow> ''undefined'')"

definition addObject :: "scene_graph \<Rightarrow> scene_object \<Rightarrow> scene_graph" where
  "addObject scene obj =
     (case getObject scene (objectKey obj) of
        Some _ \<Rightarrow> scene
      | None \<Rightarrow>
          (let nextObjects = (objects scene)(objectKey obj \<mapsto> obj);
               nextScene = scene\<lparr> objects := nextObjects \<rparr>;
               nextOrder = insertIntoOrder nextScene (objectKey obj)
           in scene\<lparr> objects := nextObjects, order := nextOrder \<rparr>))"

text \<open>The object literal \<open>updated\<close> of the update case, with its \<open>mergedTransform\<close>.\<close>

definition patchObject :: "scene_object \<Rightarrow> patch \<Rightarrow> scene_object" where
  "patchObject existing p =
     (let mergedTransform =
            (case p_transform p of
               Some pt \<Rightarrow> Some (clampTransform (spreadTransform (o_transform existing) pt))
             | None \<Rightarrow> o_transform existing)
      in existing
           \<lparr> o_layer := (case p_layer p of Some l \<Rightarrow> Some l | None \<Rightarrow> o_layer existing),
             o_status := (case p_status p of Some s \<Rightarrow> Some s | None \<Rightarrow> o_status existing),
             o_semanticTag :=
               (case p_semanticTag p of Some t \<Rightarrow> Some t | None \<Rightarrow> o_semanticTag existing),
             o_transform := mergedTransform,
             o_shapes := (case p_shapes p of Some ss \<Rightarrow> Some ss | None \<Rightarrow> o_shapes existing) \<rparr>)"

definition updateObject :: "scene_graph \<Rightarrow> string \<Rightarrow> patch \<Rightarrow> scene_graph" where
  "updateObject scene ident p =
     (case getObject scene ident of
        None \<Rightarrow> scene
      | Some existing \<Rightarrow>
          (let updated = patchObject existing p;
               nextObjects = (objects scene)(ident \<mapsto> updated);
               beforeK = orderKey existing;
               afterK = orderKey updated
           in if strictEq beforeK afterK then scene\<lparr> objects := nextObjects \<rparr>
              else (let nextScene = scene\<lparr> objects := nextObjects \<rparr>;
                        nextOrder = insertIntoOrder nextScene ident
                    in scene\<lparr> objects := nextObjects, order := nextOrder \<rparr>)))"

definition commitObject :: "scene_graph \<Rightarrow> string \<Rightarrow> scene_graph" where
  "commitObject scene ident =
     (case getObject scene ident of
        None \<Rightarrow> scene
      | Some existing \<Rightarrow>
          if o_status existing = Some ''committed'' then scene
          else (let committed = existing\<lparr> o_status := Some ''committed'' \<rparr>;
                    nextObjects = (objects scene)(ident \<mapsto> committed)
                in scene\<lparr> objects := nextObjects \<rparr>))"

definition removeObject :: "scene_graph \<Rightarrow> string \<Rightarrow> scene_graph" where
  "removeObject scene ident =
     (case getObject scene ident of
        None \<Rightarrow> scene
      | Some existing \<Rightarrow>
          scene\<lparr> objects := (objects scene)(ident := None),
                 order := filter (\<lambda>i. i \<noteq> ident) (order scene) \<rparr>)"

fun applyCommand :: "scene_graph \<Rightarrow> command \<Rightarrow> scene_graph" where
  "applyCommand scene (SetSceneIntent i) = scene\<lparr> intent := i \<rparr>"
| "applyCommand scene (AddPreviewObject obj) = addObject scene obj"
| "applyCommand scene (AddObject obj) = addObject scene obj"
| "applyCommand scene (UpdatePreviewObject ident p) = updateObject scene ident p"
| "applyCommand scene (UpdateObject ident p) = updateObject scene ident p"
| "applyCommand scene (CommitPreviewObject ident) = commitObject scene ident"
| "applyCommand scene (CancelPreviewObject ident) = removeObject scene ident"
| "applyCommand scene (DeleteObject ident) = removeObject scene ident"
| "applyCommand scene (SetBackgroundGradient g) = scene"
| "applyCommand scene (SetGroundFill f) = scene"
| "applyCommand scene (SetPath ident bezierPoints widthNear widthFar) = scene"
| "applyCommand scene (Batch cmds) = foldl applyCommand scene cmds"

definition applyCommands :: "scene_graph \<Rightarrow> command list \<Rightarrow> scene_graph" where
  "applyCommands scene commands = foldl applyCommand scene commands"

section \<open>The geometric stabilizer (src/unnamed/part_008)\<close>

subsection \<open>Numbers\<close>

text \<open>
  A JavaScript number is an IEEE 754 binary64 value, and \<open>/\<close>, \<open>*\<close>, \<open>-\<close> and
  \<open>+\<close> return the exact result rounded to the nearest such value, ties to the one with
  an even significand. \<open>toDouble\<close> is that rounding on the reals: with \<open>e\<close> the binary
  exponent of \<open>x\<close>, not below the exponent -1022 of the subnormal numbers, the values
  near \<open>x\<close> are the multiples of \<open>2 powi (e - 52)\<close>. Results of magnitude
  \<open>2 powi 1024\<close> and more, which the machine turns into \<open>Infinity\<close>, are not
  modelled; no computation below comes near them.

  \<open>binaryExponent x\<close> is the \<open>e\<close> with \<open>2 powi e \<le> x < 2 powi (e + 1)\<close> for
  a positive \<open>x\<close>, found by halving or doubling.
\<close>

function binaryExponent :: "real \<Rightarrow> int" where
  "binaryExponent x =
     (if x \<le> 0 then 0
      else if 2 \<le> x then binaryExponent (x / 2) + 1
      else if x < 1 then binaryExponent (x * 2) - 1
      else 0)"
  by pat_completeness auto
termination
proof (relation "measure (\<lambda>x. nat \<bar>\<lfloor>log 2 x\<rfloor>\<bar>)")
  show "wf (measure (\<lambda>x. nat \<bar>\<lfloor>log 2 x\<rfloor>\<bar>))" by simp
next
  fix x :: real
  assume "\<not> x \<le> 0" and "2 \<le> x"
  then have "log 2 (x / 2) = log 2 x - 1" by (simp add: log_divide)
  then have a: "\<lfloor>log 2 (x / 2)\<rfloor> = \<lfloor>log 2 x\<rfloor> - 1" by simp
  have "1 \<le> log 2 x" using \<open>2 \<le> x\<close> by (simp add: le_log_iff)
  then have b: "1 \<le> \<lfloor>log 2 x\<rfloor>" by (simp add: le_floor_iff)
  have "nat \<bar>\<lfloor>log 2 (x / 2)\<rfloor>\<bar> < nat \<bar>\<lfloor>log 2 x\<rfloor>\<bar>"
    unfolding a using b by linarith
  then show "(x / 2, x) \<in> measure (\<lambda>x. nat \<bar>\<lfloor>log 2 x\<rfloor>\<bar>)" by (simp only: in_measure)
next
  fix x :: real
  assume "\<not> x \<le> 0" and "\<not> 2 \<le> x" and "x < 1"
  then have "log 2 (x * 2) = log 2 x + 1" by (simp add: log_mult)
  then have a: "\<lfloor>log 2 (x * 2)\<rfloor> = \<lfloor>log 2 x\<rfloor> + 1" by simp
  have "log 2 x < 0" using \<open>\<not> x \<le> 0\<close> \<open>x < 1\<close> by simp
  then have b: "\<lfloor>log 2 x\<rfloor> < 0" by (simp add: floor_less_iff)
  have "nat \<bar>\<lfloor>log 2 (x * 2)\<rfloor>\<bar> < nat \<bar>\<lfloor>log 2 x\<rfloor>\<bar>"
    unfolding a using b by linarith
  then show "(x * 2, x) \<in> measure (\<lambda>x. nat \<bar>\<lfloor>log 2 x\<rfloor>\<bar>)" by (simp only: in_measure)
qed

declare binaryExponent.simps [simp del]

text \<open>Rounding to the nearest integer, a tie to the even one.\<close>

definition roundHalfEven :: "real \<Rightarrow> int" where
  "roundHalfEven m =
     (let f = \<lfloor>m\<rfloor>; d = m - of_int f
      in if d < 1 / 2 then f else if 1 / 2 < d then f + 1 else if even f then f else f + 1)"

definition toDouble :: "real \<Rightarrow> real" where
  "toDouble x =
     (if x = 0 then 0
      else (let e = max (binaryExponent \<bar>x\<bar>) (- 1022);
                ulp = 2 powi (e - 52)
            in of_int (roundHalfEven (x / ulp)) * ulp))"

subsection \<open>Band stacks\<close>

text \<open>
  Band stacks. \<open>typeof shape.height === "number" ? shape.height : 0\<close> and its siblings
  read an optional number with the default 0.
\<close>

definition numOr0 :: "real option \<Rightarrow> real" where
  "numOr0 v = (case v of Some n \<Rightarrow> n | None \<Rightarrow> 0)"

definition looksLikeFullWidthBandRect :: "shape \<Rightarrow> bool" where
  "looksLikeFullWidthBandRect shape =
     (if s_type shape \<noteq> ''rect'' then False
      else (let x = numOr0 (s_x shape); w = numOr0 (s_width shape); h = numOr0 (s_height shape)
            in x \<le> 1 \<and> w \<ge> 95 \<and> h > 0))"

text \<open>
  \<open>rects.sort((a, b) => (a.y ?? 0) - (b.y ?? 0))\<close>: \<open>Array.prototype.sort\<close> is stable,
  as is the insertion sort \<open>sort_key\<close>.
\<close>

definition getBandRects :: "shape list \<Rightarrow> shape list" where
  "getBandRects shapes = sort_key (\<lambda>s. numOr0 (s_y s)) (filter looksLikeFullWidthBandRect shapes)"

definition isBandStack :: "shape list \<Rightarrow> bool" where
  "isBandStack shapes = (length (getBandRects shapes) \<ge> 3)"

text \<open>
  The callback of \<open>rects.map\<close> in \<open>normalizeBandStack\<close>, with the two variables it
  mutates, \<open>rem\<close> and \<open>y\<close>, passed along. \<open>rem--\<close>, \<open>base + extra\<close> and
  \<open>y += h\<close> are operations on doubles; \<open>base\<close> is the integer that
  \<open>Math.floor\<close> returned.
\<close>

fun layoutBands :: "int \<Rightarrow> real \<Rightarrow> real \<Rightarrow> shape list \<Rightarrow> shape list" where
  "layoutBands base rem y [] = []"
| "layoutBands base rem y (r # rs) =
     (let extra = (if rem > 0 then 1 else 0);
          rem' = (if rem > 0 then toDouble (rem - 1) else rem);
          h = toDouble (of_int base + extra);
          nr = r\<lparr> s_x := Some 0, s_y := Some y, s_width := Some 100, s_height := Some h \<rparr>
      in nr # layoutBands base rem' (toDouble (y + h)) rs)"

text \<open>
  \<open>None\<close> is the \<open>null\<close> returned for fewer than three band rects.
  \<open>Math.floor(targetHeight / n)\<close> is the floor of the rounded quotient, and
  \<open>targetHeight - base * n\<close> rounds the product and then the difference.
\<close>

definition normalizeBandStack :: "shape list \<Rightarrow> real \<Rightarrow> shape list option" where
  "normalizeBandStack shapes targetHeight =
     (let rects = getBandRects shapes in
      if length rects < 3 then None
      else (let n = length rects;
                base = \<lfloor>toDouble (targetHeight / of_nat n)\<rfloor>;
                rem = toDouble (targetHeight - toDouble (of_int base * of_nat n));
                outRects = layoutBands base rem 0 rects;
                others = filter (\<lambda>s. \<not> looksLikeFullWidthBandRect s) shapes
            in Some (outRects @ others)))"

section \<open>The safety guard (src/unnamed/part_008)\<close>

text \<open>
  The guard's regular expressions all have the form \<open>/\b(w1|w2|...)\b/i\<close> with literal
  alternatives. \<open>\w\<close> is a letter, a digit or the underscore; \<open>\b\<close> holds between two
  positions of which exactly one is a word character (the ends of the string count as
  none); \<open>/i\<close> compares letters without case.
\<close>

definition isWordChar :: "char \<Rightarrow> bool" where
  "isWordChar c =
     (let n = (of_char c :: nat)
      in (48 \<le> n \<and> n \<le> 57) \<or> (65 \<le> n \<and> n \<le> 90) \<or> n = 95 \<or> (97 \<le> n \<and> n \<le> 122))"

definition wordBoundary :: "char option \<Rightarrow> char option \<Rightarrow> bool" where
  "wordBoundary left right =
     ((case left of None \<Rightarrow> False | Some c \<Rightarrow> isWordChar c) \<noteq>
      (case right of None \<Rightarrow> False | Some c \<Rightarrow> isWordChar c))"

text \<open>
  Matching one literal alternative at the start of \<open>s\<close>: the rest of the input and the
  last character consumed (\<open>prev\<close> if the literal is empty).
\<close>

fun matchLiteral :: "string \<Rightarrow> char option \<Rightarrow> string \<Rightarrow> (char option \<times> string) option" where
  "matchLiteral [] prev s = Some (prev, s)"
| "matchLiteral (p # ps) prev [] = None"
| "matchLiteral (p # ps) prev (c # cs) =
     (if lowerChar c = lowerChar p then matchLiteral ps (Some c) cs else None)"

definition firstChar :: "string \<Rightarrow> char option" where
  "firstChar s = (case s of [] \<Rightarrow> None | c # _ \<Rightarrow> Some c)"

definition matchesHere :: "string list \<Rightarrow> char option \<Rightarrow> string \<Rightarrow> bool" where
  "matchesHere alts prev s =
     (wordBoundary prev (firstChar s) \<and>
      (\<exists>w \<in> set alts.
         case matchLiteral w prev s of
           None \<Rightarrow> False
         | Some (lastChar, rest) \<Rightarrow> wordBoundary lastChar (firstChar rest)))"

text \<open>\<open>RegExp.prototype.test\<close>: a match at some start position; \<open>prev\<close> is the character before.\<close>

fun wordRegexTest :: "string list \<Rightarrow> char option \<Rightarrow> string \<Rightarrow> bool" where
  "wordRegexTest alts prev [] = matchesHere alts prev []"
| "wordRegexTest alts prev (c # cs) =
     (matchesHere alts prev (c # cs) \<or> wordRegexTest alts (Some c) cs)"

definition userExplicitlyWantsDelete :: "string \<Rightarrow> bool" where
  "userExplicitlyWantsDelete utterance =
     wordRegexTest [''delete'', ''remove'', ''erase'', ''clear'', ''get rid'', ''discard'', ''wipe'']
       None utterance"

definition userExplicitlyWantsCancel :: "string \<Rightarrow> bool" where
  "userExplicitlyWantsCancel utterance =
     wordRegexTest [''cancel'', ''discard'', ''undo''] None utterance"

definition userExplicitlyWantsConvert :: "string \<Rightarrow> bool" where
  "userExplicitlyWantsConvert utterance =
     wordRegexTest [''turn into'', ''convert'', ''transform'', ''change into'', ''make it into'']
       None utterance"

record guard_result =
  cmds :: "command list"
  removed :: nat
  strippedSemantic :: nat

text \<open>
  \<open>stripDestructiveCommands\<close> on validated commands: the callback of \<open>flatMap\<close> is
  \<open>stripCommand\<close>, and the two counters it increments are summed over the list.
\<close>

fun stripDestructiveCommands :: "command list \<Rightarrow> string \<Rightarrow> guard_result"
  and stripCommand :: "command \<Rightarrow> string \<Rightarrow> guard_result" where
  "stripDestructiveCommands [] utterance = \<lparr> cmds = [], removed = 0, strippedSemantic = 0 \<rparr>"
| "stripDestructiveCommands (cmd # rest) utterance =
     (let a = stripCommand cmd utterance;
          b = stripDestructiveCommands rest utterance
      in \<lparr> cmds = cmds a @ cmds b, removed = removed a + removed b,
           strippedSemantic = strippedSemantic a + strippedSemantic b \<rparr>)"
| "stripCommand (Batch commands) utterance =
     (let inner = stripDestructiveCommands commands utterance
      in \<lparr> cmds = [Batch (cmds inner)], removed = removed inner,
           strippedSemantic = strippedSemantic inner \<rparr>)"
| "stripCommand (DeleteObject ident) utterance =
     (if \<not> userExplicitlyWantsDelete utterance
      then \<lparr> cmds = [], removed = 1, strippedSemantic = 0 \<rparr>
      else \<lparr> cmds = [DeleteObject ident], removed = 0, strippedSemantic = 0 \<rparr>)"
| "stripCommand (CancelPreviewObject ident) utterance =
     (if \<not> userExplicitlyWantsCancel utterance
      then \<lparr> cmds = [], removed = 1, strippedSemantic = 0 \<rparr>
      else \<lparr> cmds = [CancelPreviewObject ident], removed = 0, strippedSemantic = 0 \<rparr>)"
| "stripCommand (UpdateObject ident p) utterance =
     (if p_semanticTag p \<noteq> None \<and> \<not> userExplicitlyWantsConvert utterance
      then \<lparr> cmds = [UpdateObject ident (p\<lparr> p_semanticTag := None \<rparr>)], removed = 0,
             strippedSemantic = 1 \<rparr>
      else \<lparr> cmds = [UpdateObject ident p], removed = 0, strippedSemantic = 0 \<rparr>)"
| "stripCommand (UpdatePreviewObject ident p) utterance =
     (if p_semanticTag p \<noteq> None \<and> \<not> userExplicitlyWantsConvert utterance
      then \<lparr> cmds = [UpdatePreviewObject ident (p\<lparr> p_semanticTag := None \<rparr>)], removed = 0,
             strippedSemantic = 1 \<rparr>
      else \<lparr> cmds = [UpdatePreviewObject ident p], removed = 0, strippedSemantic = 0 \<rparr>)"
| "stripCommand cmd utterance = \<lparr> cmds = [cmd], removed = 0, strippedSemantic = 0 \<rparr>"

section \<open>JSON values and the validator (zod schemas of src/shared)\<close>

text \<open>
  What \<open>JSON.parse\<close> returns. An object is the list of its properties in insertion
  order; a key occurs once.
\<close>

datatype json = JNull | JBool bool | JNum real | JStr string | JArr "json list"
  | JObj "(string \<times> json) list"

lemma size_element: "x \<in> set xs \<Longrightarrow> size x < size (JArr xs)"
  by (induction xs) auto

lemma size_field: "map_of kv k = Some v \<Longrightarrow> size v < size (JObj kv)"
  by (induction kv) (auto split: if_splits)

lemma size_field_element:
  "map_of kv k = Some (JArr xs) \<Longrightarrow> x \<in> set xs \<Longrightarrow> size x < size (JObj kv)"
  using size_field [of kv k "JArr xs"] size_element [of x xs] by simp

text \<open>The zod primitives the schemas use, as predicates on the value parsed.\<close>

definition zString :: "json \<Rightarrow> bool" where
  "zString j = (case j of JStr _ \<Rightarrow> True | _ \<Rightarrow> False)"

definition zStringLen :: "nat \<Rightarrow> nat \<Rightarrow> json \<Rightarrow> bool" where
  "zStringLen lo hi j = (case j of JStr s \<Rightarrow> lo \<le> length s \<and> length s \<le> hi | _ \<Rightarrow> False)"

definition zBoolean :: "json \<Rightarrow> bool" where
  "zBoolean j = (case j of JBool _ \<Rightarrow> True | _ \<Rightarrow> False)"

definition zNumber :: "json \<Rightarrow> bool" where
  "zNumber j = (case j of JNum _ \<Rightarrow> True | _ \<Rightarrow> False)"

definition zNumberMin :: "real \<Rightarrow> json \<Rightarrow> bool" where
  "zNumberMin lo j = (case j of JNum n \<Rightarrow> lo \<le> n | _ \<Rightarrow> False)"

definition zNumberIn :: "real \<Rightarrow> real \<Rightarrow> json \<Rightarrow> bool" where
  "zNumberIn lo hi j = (case j of JNum n \<Rightarrow> lo \<le> n \<and> n \<le> hi | _ \<Rightarrow> False)"

definition zEnum :: "string list \<Rightarrow> json \<Rightarrow> bool" where
  "zEnum values j = (case j of JStr s \<Rightarrow> s \<in> set values | _ \<Rightarrow> False)"

definition zArray :: "(json \<Rightarrow> bool) \<Rightarrow> json \<Rightarrow> bool" where
  "zArray item j = (case j of JArr xs \<Rightarrow> list_all item xs | _ \<Rightarrow> False)"

definition zArrayLen :: "nat \<Rightarrow> nat \<Rightarrow> (json \<Rightarrow> bool) \<Rightarrow> json \<Rightarrow> bool" where
  "zArrayLen lo hi item j =
     (case j of JArr xs \<Rightarrow> lo \<le> length xs \<and> length xs \<le> hi \<and> list_all item xs | _ \<Rightarrow> False)"

text \<open>\<open>z.object\<close> accepts objects only, neither arrays nor null.\<close>

definition zObject :: "((string \<times> json) list \<Rightarrow> bool) \<Rightarrow> json \<Rightarrow> bool" where
  "zObject fieldsOk j = (case j of JObj kv \<Rightarrow> fieldsOk kv | _ \<Rightarrow> False)"

definition required :: "(string \<times> json) list \<Rightarrow> string \<Rightarrow> (json \<Rightarrow> bool) \<Rightarrow> bool" where
  "required kv k schema = (case map_of kv k of Some v \<Rightarrow> schema v | None \<Rightarrow> False)"

definition optional :: "(string \<times> json) list \<Rightarrow> string \<Rightarrow> (json \<Rightarrow> bool) \<Rightarrow> bool" where
  "optional kv k schema = (case map_of kv k of Some v \<Rightarrow> schema v | None \<Rightarrow> True)"

subsection \<open>src/shared/vectorShapes.ts\<close>

text \<open>The second refinement of \<open>GradientColorStopsSchema\<close>: the loop over the even indices.\<close>

fun stopsAtEvenIndices :: "json list \<Rightarrow> bool" where
  "stopsAtEvenIndices [] = True"
| "stopsAtEvenIndices (stop # rest) = (zNumberIn 0 1 stop \<and> stopsAtEvenIndices (drop 1 rest))"

definition GradientColorStopsSchema :: "json \<Rightarrow> bool" where
  "GradientColorStopsSchema j =
     (case j of
        JArr arr \<Rightarrow>
          list_all (\<lambda>v. zNumber v \<or> zString v) arr \<and> length arr mod 2 = 0 \<and>
          stopsAtEvenIndices arr
      | _ \<Rightarrow> False)"

definition GradientPointSchema :: "json \<Rightarrow> bool" where
  "GradientPointSchema = zObject (\<lambda>kv. required kv ''x'' zNumber \<and> required kv ''y'' zNumber)"

definition VectorShapeBase :: "(string \<times> json) list \<Rightarrow> bool" where
  "VectorShapeBase kv =
     (required kv ''id'' zString \<and>
      optional kv ''role'' zString \<and>
      optional kv ''opacity'' (zNumberIn 0 1) \<and>
      optional kv ''fill'' zString \<and>
      optional kv ''stroke'' zString \<and>
      optional kv ''strokeWidth'' (zNumberIn 0 20) \<and>
      optional kv ''fillLinearGradientStartPoint'' GradientPointSchema \<and>
      optional kv ''fillLinearGradientEndPoint'' GradientPointSchema \<and>
      optional kv ''fillLinearGradientColorStops'' GradientColorStopsSchema \<and>
      optional kv ''fillRadialGradientStartPoint'' GradientPointSchema \<and>
      optional kv ''fillRadialGradientEndPoint'' GradientPointSchema \<and>
      optional kv ''fillRadialGradientStartRadius'' (zNumberMin 0) \<and>
      optional kv ''fillRadialGradientEndRadius'' (zNumberMin 0) \<and>
      optional kv ''fillRadialGradientColorStops'' GradientColorStopsSchema)"

definition RectSchema :: "(string \<times> json) list \<Rightarrow> bool" where
  "RectSchema kv =
     (VectorShapeBase kv \<and> required kv ''x'' zNumber \<and> required kv ''y'' zNumber \<and>
      required kv ''width'' (zNumberMin 0) \<and> required kv ''height'' (zNumberMin 0) \<and>
      optional kv ''cornerRadius'' (zNumberMin 0))"

definition CircleSchema :: "(string \<times> json) list \<Rightarrow> bool" where
  "CircleSchema kv =
     (VectorShapeBase kv \<and> required kv ''x'' zNumber \<and> required kv ''y'' zNumber \<and>
      required kv ''radius'' (zNumberMin 0))"

definition EllipseSchema :: "(string \<times> json) list \<Rightarrow> bool" where
  "EllipseSchema kv =
     (VectorShapeBase kv \<and> required kv ''x'' zNumber \<and> required kv ''y'' zNumber \<and>
      required kv ''radiusX'' (zNumberMin 0) \<and> required kv ''radiusY'' (zNumberMin 0))"

definition PointsSchema :: "json \<Rightarrow> bool" where
  "PointsSchema = zArrayLen 0 200 zNumber"

definition LineSchema :: "(string \<times> json) list \<Rightarrow> bool" where
  "LineSchema kv =
     (VectorShapeBase kv \<and>
      required kv ''points''
        (\<lambda>pts. PointsSchema pts \<and> (case pts of JArr ps \<Rightarrow> length ps mod 2 = 0 | _ \<Rightarrow> False)))"

definition PolylineSchema :: "(string \<times> json) list \<Rightarrow> bool" where
  "PolylineSchema kv =
     (VectorShapeBase kv \<and> required kv ''points'' PointsSchema \<and> optional kv ''closed'' zBoolean)"

definition PolygonSchema :: "(string \<times> json) list \<Rightarrow> bool" where
  "PolygonSchema kv = (VectorShapeBase kv \<and> required kv ''points'' PointsSchema)"

definition PathSchema :: "(string \<times> json) list \<Rightarrow> bool" where
  "PathSchema kv = (VectorShapeBase kv \<and> required kv ''d'' (zStringLen 0 800))"

definition TextSchema :: "(string \<times> json) list \<Rightarrow> bool" where
  "TextSchema kv =
     (VectorShapeBase kv \<and> required kv ''x'' zNumber \<and> required kv ''y'' zNumber \<and>
      required kv ''text'' (zStringLen 0 80) \<and> optional kv ''fontSize'' (zNumberIn 6 96) \<and>
      optional kv ''fontFamily'' zString \<and>
      optional kv ''align'' (zEnum [''left'', ''center'', ''right'']))"

text \<open>\<open>z.discriminatedUnion("type", ...)\<close>: the value of \<open>type\<close> selects the schema.\<close>

definition VectorShapeSchema :: "json \<Rightarrow> bool" where
  "VectorShapeSchema =
     zObject (\<lambda>kv.
       case map_of kv ''type'' of
         Some (JStr t) \<Rightarrow>
           if t = ''rect'' then RectSchema kv
           else if t = ''circle'' then CircleSchema kv
           else if t = ''ellipse'' then EllipseSchema kv
           else if t = ''line'' then LineSchema kv
           else if t = ''polyline'' then PolylineSchema kv
           else if t = ''polygon'' then PolygonSchema kv
           else if t = ''path'' then PathSchema kv
           else if t = ''text'' then TextSchema kv
           else False
       | _ \<Rightarrow> False)"

subsection \<open>src/shared/scene.ts\<close>

definition PointSchema :: "json \<Rightarrow> bool" where
  "PointSchema =
     zObject (\<lambda>kv. required kv ''x'' (zNumberIn 0 100) \<and> required kv ''y'' (zNumberIn 0 100))"

definition TransformSchema :: "json \<Rightarrow> bool" where
  "TransformSchema =
     zObject (\<lambda>kv.
       required kv ''x'' (zNumberIn 0 100) \<and> required kv ''y'' (zNumberIn 0 100) \<and>
       required kv ''scale'' (zNumberIn (1 / 10) 3) \<and>
       required kv ''rotation'' (zNumberIn (- 180) 180))"

definition SceneIntentSchema :: "json \<Rightarrow> bool" where
  "SceneIntentSchema =
     zObject (\<lambda>kv.
       required kv ''description'' zString \<and>
       optional kv ''mood'' (zEnum [''calm'', ''bright'', ''dramatic'', ''sunset'']) \<and>
       optional kv ''paletteHint'' zString)"

definition GradientSchema :: "json \<Rightarrow> bool" where
  "GradientSchema =
     zObject (\<lambda>kv.
       required kv ''kind'' (\<lambda>v. v = JStr ''linear'') \<and>
       required kv ''from'' PointSchema \<and> required kv ''to'' PointSchema \<and>
       required kv ''stops''
         (zArray (zObject (\<lambda>st.
            required st ''offset'' (zNumberIn 0 1) \<and> required st ''color'' zString))))"

definition SceneObjectSchema :: "json \<Rightarrow> bool" where
  "SceneObjectSchema =
     zObject (\<lambda>kv.
       required kv ''id'' zString \<and>
       required kv ''status'' (zEnum [''preview'', ''committed'']) \<and>
       required kv ''layer'' (zEnum [''sky'', ''ground'', ''background'', ''foreground'']) \<and>
       required kv ''transform'' TransformSchema \<and>
       optional kv ''semanticTag'' (zStringLen 1 32) \<and>
       required kv ''shapes'' (zArrayLen 1 60 VectorShapeSchema))"

subsection \<open>src/shared/commands.ts and the envelope\<close>

definition patchKeys :: "string list" where
  "patchKeys = [''layer'', ''status'', ''transform'', ''semanticTag'', ''shapes'']"

text \<open>
  \<open>PatchSchema\<close>: five optional fields of any value, \<open>strict()\<close>, which refuses every
  other key, and the refinement that refuses \<open>id\<close> and \<open>type\<close>.
\<close>

definition PatchSchema :: "json \<Rightarrow> bool" where
  "PatchSchema =
     zObject (\<lambda>data.
       list_all (\<lambda>k. k \<in> set patchKeys) (map fst data) \<and>
       \<not> (''id'' \<in> set (map fst data) \<or> ''type'' \<in> set (map fst data)))"

definition statusIs :: "string \<Rightarrow> json \<Rightarrow> bool" where
  "statusIs s obj = (case obj of JObj kv \<Rightarrow> map_of kv ''status'' = Some (JStr s) | _ \<Rightarrow> False)"

function (sequential) DrawingCommandSchema :: "json \<Rightarrow> bool" where
  "DrawingCommandSchema (JObj kv) =
     (case map_of kv ''type'' of
        Some (JStr t) \<Rightarrow>
          if t = ''set_scene_intent'' then
            required kv ''intent'' (\<lambda>v. v = JNull \<or> SceneIntentSchema v)
          else if t = ''add_preview_object'' then
            required kv ''object'' (\<lambda>v. SceneObjectSchema v \<and> statusIs ''preview'' v)
          else if t = ''update_preview_object'' then
            required kv ''id'' zString \<and> required kv ''patch'' PatchSchema
          else if t = ''commit_preview_object'' then required kv ''id'' zString
          else if t = ''cancel_preview_object'' then required kv ''id'' zString
          else if t = ''add_object'' then
            required kv ''object'' (\<lambda>v. SceneObjectSchema v \<and> statusIs ''committed'' v)
          else if t = ''update_object'' then
            required kv ''id'' zString \<and> required kv ''patch'' PatchSchema
          else if t = ''delete_object'' then required kv ''id'' zString
          else if t = ''set_background_gradient'' then required kv ''gradient'' GradientSchema
          else if t = ''set_ground_fill'' then required kv ''fill'' zString
          else if t = ''set_path'' then
            required kv ''id'' zString \<and> required kv ''bezierPoints'' (zArray PointSchema) \<and>
            required kv ''widthNear'' (zNumberIn 0 50) \<and> required kv ''widthFar'' (zNumberIn 0 50)
          else if t = ''batch'' then
            (case map_of kv ''commands'' of
               Some (JArr inner) \<Rightarrow> list_all DrawingCommandSchema inner
             | _ \<Rightarrow> False)
          else False
      | _ \<Rightarrow> False)"
| "DrawingCommandSchema _ = False"
  by pat_completeness auto
termination
  apply (relation "measure size")
   apply simp
  apply (simp only: in_measure)
  apply (erule (1) size_field_element)
  done

definition CommandEnvelopeSchema :: "json \<Rightarrow> bool" where
  "CommandEnvelopeSchema =
     zObject (\<lambda>kv.
       required kv ''commands'' (zArray DrawingCommandSchema) \<and>
       optional kv ''notes'' zString \<and>
       optional kv ''refused'' zBoolean \<and>
       optional kv ''refusalReason'' zString)"

section \<open>The normalizer (src/unnamed/part_008)\<close>

subsection \<open>JavaScript operations on parsed JSON\<close>

text \<open>
  The normalizer is written against \<open>any\<close>. These are the operations it uses, on the
  values \<open>JSON.parse\<close> can return; \<open>None\<close> stands for \<open>undefined\<close>.
\<close>

definition truthy :: "json \<Rightarrow> bool" where
  "truthy v =
     (case v of JNull \<Rightarrow> False | JBool b \<Rightarrow> b | JNum n \<Rightarrow> n \<noteq> 0 | JStr s \<Rightarrow> s \<noteq> []
      | JArr _ \<Rightarrow> True | JObj _ \<Rightarrow> True)"

definition truthyO :: "json option \<Rightarrow> bool" where
  "truthyO v = (case v of None \<Rightarrow> False | Some w \<Rightarrow> truthy w)"

text \<open>\<open>x && typeof x === "object"\<close>: an array or an object.\<close>

definition isObjectLike :: "json \<Rightarrow> bool" where
  "isObjectLike v = (case v of JArr _ \<Rightarrow> True | JObj _ \<Rightarrow> True | _ \<Rightarrow> False)"

definition isString :: "json option \<Rightarrow> bool" where
  "isString v = (case v of Some (JStr _) \<Rightarrow> True | _ \<Rightarrow> False)"

definition isNumber :: "json option \<Rightarrow> bool" where
  "isNumber v = (case v of Some (JNum _) \<Rightarrow> True | _ \<Rightarrow> False)"

definition isArray :: "json option \<Rightarrow> bool" where
  "isArray v = (case v of Some (JArr _) \<Rightarrow> True | _ \<Rightarrow> False)"

text \<open>\<open>a ?? b\<close>\<close>

definition coalesce :: "json option \<Rightarrow> json \<Rightarrow> json" where
  "coalesce a b = (case a of None \<Rightarrow> b | Some JNull \<Rightarrow> b | Some v \<Rightarrow> v)"

fun showNat :: "nat \<Rightarrow> string" where
  "showNat n =
     (if n < 10 then [char_of (48 + n)] else showNat (n div 10) @ [char_of (48 + n mod 10)])"

text \<open>
  The own enumerable properties that a spread \<open>{...v}\<close> copies: an object's properties,
  an array's elements and a string's characters under their indices, nothing otherwise.
\<close>

definition fieldsOf :: "json \<Rightarrow> (string \<times> json) list" where
  "fieldsOf v =
     (case v of
        JObj kv \<Rightarrow> kv
      | JArr xs \<Rightarrow> zip (map showNat [0 ..< length xs]) xs
      | JStr s \<Rightarrow> zip (map showNat [0 ..< length s]) (map (\<lambda>c. JStr [c]) s)
      | _ \<Rightarrow> [])"

text \<open>
  The property read \<open>v.k\<close> and the test \<open>k in v\<close>, for the names the normalizer asks
  for: none of them is \<open>length\<close>, an index, or a member of a built-in prototype.
\<close>

definition getProp :: "json \<Rightarrow> string \<Rightarrow> json option" where
  "getProp v k = map_of (fieldsOf v) k"

definition hasKey :: "json \<Rightarrow> string \<Rightarrow> bool" where
  "hasKey v k = (k \<in> set (map fst (fieldsOf v)))"

text \<open>\<open>{ ...o, k: v }\<close> and \<open>o.k = v\<close>: an existing key keeps its place, a new one goes last.\<close>

fun setProp :: "(string \<times> json) list \<Rightarrow> string \<Rightarrow> json \<Rightarrow> (string \<times> json) list" where
  "setProp [] k v = [(k, v)]"
| "setProp ((k', v') # rest) k v =
     (if k' = k then (k, v) # rest else (k', v') # setProp rest k v)"

text \<open>\<open>delete o.k\<close> and the rest pattern \<open>const { k, ...rest } = o\<close>.\<close>

definition delProp :: "(string \<times> json) list \<Rightarrow> string \<Rightarrow> (string \<times> json) list" where
  "delProp kv k = filter (\<lambda>(k', v). k' \<noteq> k) kv"

datatype js_error = TypeError

subsection \<open>The repairs\<close>

definition normalizeToEnvelope :: "json \<Rightarrow> json" where
  "normalizeToEnvelope parsed =
     (if \<not> truthy parsed \<or> \<not> isObjectLike parsed then parsed
      else
        (let candidate =
               (case getProp parsed ''envelope'' of
                  Some e \<Rightarrow> if truthy e \<and> isObjectLike e then e else parsed
                | None \<Rightarrow> parsed)
         in if (hasKey candidate ''refused'' \<or> hasKey candidate ''refusalReason'' \<or>
                hasKey candidate ''notes'') \<and> \<not> hasKey candidate ''commands''
            then JObj (setProp (fieldsOf candidate) ''commands'' (JArr []))
            else if hasKey candidate ''commands'' then candidate
            else if isString (getProp candidate ''type'') then JObj [(''commands'', JArr [candidate])]
            else candidate))"

definition clamp01to100 :: "real \<Rightarrow> real" where
  "clamp01to100 n = max 0 (min 100 n)"

text \<open>The callback that \<open>normalizeLegacyCommand\<close> maps over \<open>cmd.shapes\<close>.\<close>

definition clampLegacyShape :: "json \<Rightarrow> json" where
  "clampLegacyShape s =
     (let out0 = fieldsOf s;
          out1 = (case map_of out0 ''x'' of
                    Some (JNum n) \<Rightarrow> setProp out0 ''x'' (JNum (clamp01to100 n)) | _ \<Rightarrow> out0);
          out2 = (case map_of out1 ''y'' of
                    Some (JNum n) \<Rightarrow> setProp out1 ''y'' (JNum (clamp01to100 n)) | _ \<Rightarrow> out1);
          out3 = (case map_of out2 ''points'' of
                    Some (JArr ps) \<Rightarrow>
                      setProp out2 ''points''
                        (JArr (map (\<lambda>p. case p of JNum n \<Rightarrow> JNum (clamp01to100 n) | _ \<Rightarrow> p) ps))
                  | _ \<Rightarrow> out2)
      in JObj out3)"

text \<open>
  \<open>normalizeLegacyCommand\<close>. The id it makes up for an add command without object and
  without id interpolates a value and \<open>Date.now()\<close> into a template string; \<open>toStr\<close>
  is that string conversion and \<open>now\<close> the clock's reading, both left open. A property
  whose value would be \<open>undefined\<close> (\<open>semanticTag\<close>) is left out.
\<close>

definition normalizeLegacyCommand :: "(json \<Rightarrow> string) \<Rightarrow> string \<Rightarrow> json \<Rightarrow> json" where
  "normalizeLegacyCommand toStr now cmd0 =
     (if \<not> truthy cmd0 \<or> \<not> isObjectLike cmd0 then cmd0
      else
        (let cmd1 =
               (case getProp cmd0 ''command_type'' of
                  Some (JStr ct) \<Rightarrow>
                    if \<not> truthyO (getProp cmd0 ''type'')
                    then JObj (delProp (setProp (fieldsOf cmd0) ''type'' (JStr ct)) ''command_type'')
                    else cmd0
                | _ \<Rightarrow> cmd0);
             cmd2 =
               (case getProp cmd1 ''object_id'' of
                  Some (JStr oid) \<Rightarrow>
                    if \<not> truthyO (getProp cmd1 ''objectId'')
                    then JObj (delProp (setProp (fieldsOf cmd1) ''objectId'' (JStr oid)) ''object_id'')
                    else cmd1
                | _ \<Rightarrow> cmd1)
         in if (getProp cmd2 ''type'' = Some (JStr ''add_preview_object'') \<or>
                getProp cmd2 ''type'' = Some (JStr ''add_object'')) \<and>
               \<not> truthyO (getProp cmd2 ''object'')
            then
              (let ident =
                     coalesce (getProp cmd2 ''object_id'')
                       (coalesce (getProp cmd2 ''objectId'')
                          (JStr (''obj_'' @ toStr (coalesce (getProp cmd2 ''object_type'') (JStr ''obj''))
                                 @ ''_'' @ now)));
                   layer = coalesce (getProp cmd2 ''layer'') (JStr ''ground'');
                   status = (if getProp cmd2 ''type'' = Some (JStr ''add_preview_object'')
                             then JStr ''preview'' else JStr ''committed'');
                   shapes = (case getProp cmd2 ''shapes'' of
                               Some (JArr ss) \<Rightarrow> map clampLegacyShape ss | _ \<Rightarrow> []);
                   transform =
                     coalesce (getProp cmd2 ''transform'')
                       (JObj [(''x'', JNum 50), (''y'', JNum 70), (''scale'', JNum 1),
                              (''rotation'', JNum 0)]);
                   semanticTag =
                     (case getProp cmd2 ''object_type'' of
                        None \<Rightarrow> [] | Some JNull \<Rightarrow> [] | Some t \<Rightarrow> [(''semanticTag'', t)])
               in JObj [(''type'', the (getProp cmd2 ''type'')),
                        (''object'',
                         JObj ([(''id'', ident), (''status'', status), (''layer'', layer),
                                (''transform'', transform)] @ semanticTag @
                               [(''shapes'', JArr shapes)]))])
            else cmd2))"

definition COMMANDS_THAT_REQUIRE_TARGET_ID :: "string list" where
  "COMMANDS_THAT_REQUIRE_TARGET_ID =
     [''update_preview_object'', ''commit_preview_object'', ''cancel_preview_object'',
      ''update_object'', ''delete_object'', ''set_path'']"

text \<open>
  The first half of \<open>normalizeTargetId\<close>, on the properties of an object: the first
  non-empty string among \<open>id\<close>, \<open>objectId\<close> and \<open>object_id\<close> becomes \<open>id\<close>, and the
  two legacy keys are removed.
\<close>

definition nonEmptyString :: "json option \<Rightarrow> string option" where
  "nonEmptyString v = (case v of Some (JStr s) \<Rightarrow> if s = [] then None else Some s | _ \<Rightarrow> None)"

definition targetIdStep :: "(string \<times> json) list \<Rightarrow> (string \<times> json) list" where
  "targetIdStep kv =
     (case map_of kv ''type'' of
        Some (JStr t) \<Rightarrow>
          if t \<in> set COMMANDS_THAT_REQUIRE_TARGET_ID then
            (let target =
                   (case nonEmptyString (map_of kv ''id'') of
                      Some s \<Rightarrow> Some s
                    | None \<Rightarrow>
                        (case nonEmptyString (map_of kv ''objectId'') of
                           Some s \<Rightarrow> Some s
                         | None \<Rightarrow> nonEmptyString (map_of kv ''object_id'')));
                 cmd1 = (case target of Some s \<Rightarrow> setProp kv ''id'' (JStr s) | None \<Rightarrow> kv);
                 cmd2 = (if ''objectId'' \<in> set (map fst cmd1) then delProp cmd1 ''objectId'' else cmd1);
                 cmd3 = (if ''object_id'' \<in> set (map fst cmd2) then delProp cmd2 ''object_id'' else cmd2)
             in cmd3)
          else kv
      | _ \<Rightarrow> kv)"

lemma map_of_setProp_other: "k' \<noteq> k \<Longrightarrow> map_of (setProp kv k v) k' = map_of kv k'"
  by (induction kv) auto

lemma map_of_delProp_other: "k' \<noteq> k \<Longrightarrow> map_of (delProp kv k) k' = map_of kv k'"
  by (induction kv) (auto simp: delProp_def)

lemma targetIdStep_commands: "map_of (targetIdStep kv) ''commands'' = map_of kv ''commands''"
proof -
  have keep: "map_of (case target of Some s \<Rightarrow> setProp kv ''id'' (JStr s) | None \<Rightarrow> kv) ''commands''
      = map_of kv ''commands''" for target
    by (cases target) (simp_all add: map_of_setProp_other)
  have del: "map_of (if c then delProp xs k else xs) ''commands'' = map_of xs ''commands''"
    if "k \<noteq> ''commands''" for c xs k
    using that by (simp add: map_of_delProp_other)
  show ?thesis
  proof (cases "map_of kv ''type''")
    case None
    then show ?thesis by (simp add: targetIdStep_def)
  next
    case (Some j)
    show ?thesis
    proof (cases j)
      case (JStr t)
      show ?thesis
      proof (cases "t \<in> set COMMANDS_THAT_REQUIRE_TARGET_ID")
        case True
        with Some JStr show ?thesis
          by (simp only: targetIdStep_def Let_def option.case json.case if_True del keep)
             (simp add: del keep)
      next
        case False
        with Some JStr show ?thesis by (simp add: targetIdStep_def)
      qed
    qed (use Some in \<open>simp_all add: targetIdStep_def\<close>)
  qed
qed

function (sequential) normalizeTargetId :: "json \<Rightarrow> json" where
  "normalizeTargetId (JObj kv) =
     (let cmd = targetIdStep kv
      in if map_of cmd ''type'' = Some (JStr ''batch'') then
           (case map_of cmd ''commands'' of
              Some (JArr commands) \<Rightarrow>
                JObj (setProp cmd ''commands'' (JArr (map normalizeTargetId commands)))
            | _ \<Rightarrow> JObj cmd)
         else JObj cmd)"
| "normalizeTargetId other = other"
  by pat_completeness auto
termination
  apply (relation "measure size")
   apply simp
  apply (simp only: in_measure targetIdStep_commands)
  apply (erule (1) size_field_element)
  done

text \<open>The part of \<open>normalizeMissingPatch\<close> that folds stray fields of an update into its patch.\<close>

definition foldIntoPatch :: "(string \<times> json) list \<Rightarrow> json" where
  "foldIntoPatch cmd =
     (let patch0 = (case map_of cmd ''patch'' of
                      Some p \<Rightarrow> if truthy p \<and> isObjectLike p then fieldsOf p else []
                    | None \<Rightarrow> []);
          give = (\<lambda>patch k source.
                    case source of
                      Some v \<Rightarrow> if truthy v \<and> \<not> truthyO (map_of patch k) then setProp patch k v
                                else patch
                    | None \<Rightarrow> patch);
          patch1 = give patch0 ''transform'' (map_of cmd ''transform'');
          patch2 = give patch1 ''shapes'' (map_of cmd ''shapes'');
          patch3 =
            (case map_of cmd ''object'' of
               Some ob \<Rightarrow>
                 if truthy ob \<and> isObjectLike ob then
                   (let a = give patch2 ''transform'' (getProp ob ''transform'');
                        b = (if isArray (getProp ob ''shapes'') then give a ''shapes'' (getProp ob ''shapes'')
                             else a);
                        c = give b ''semanticTag'' (getProp ob ''semanticTag'');
                        d = give c ''layer'' (getProp ob ''layer'');
                        e = give d ''status'' (getProp ob ''status'')
                    in e)
                 else patch2
             | None \<Rightarrow> patch2)
      in if patch3 = [] then JObj cmd
         else JObj (setProp (delProp (delProp (delProp cmd ''transform'') ''shapes'') ''object'')
                      ''patch'' (JObj patch3)))"

function (sequential) normalizeMissingPatch :: "json \<Rightarrow> json" where
  "normalizeMissingPatch (JObj cmd) =
     (if map_of cmd ''type'' = Some (JStr ''batch'') \<and> isArray (map_of cmd ''commands'') then
        (case map_of cmd ''commands'' of
           Some (JArr commands) \<Rightarrow>
             JObj (setProp cmd ''commands'' (JArr (map normalizeMissingPatch commands)))
         | _ \<Rightarrow> JObj cmd)
      else if map_of cmd ''type'' = Some (JStr ''update_object'') \<or>
              map_of cmd ''type'' = Some (JStr ''update_preview_object'')
      then foldIntoPatch cmd
      else JObj cmd)"
| "normalizeMissingPatch other = other"
  by pat_completeness auto
termination
  apply (relation "measure size")
   apply simp
  apply (simp only: in_measure)
  apply (erule (1) size_field_element)
  done

definition normalizeLineShape :: "json \<Rightarrow> json" where
  "normalizeLineShape shape =
     (case shape of
        JObj kv \<Rightarrow>
          if map_of kv ''type'' \<noteq> Some (JStr ''line'') then shape
          else if isNumber (map_of kv ''x1'') \<and> isNumber (map_of kv ''y1'') \<and>
                  isNumber (map_of kv ''x2'') \<and> isNumber (map_of kv ''y2'') \<and>
                  \<not> isArray (map_of kv ''points'')
          then
            (let rest = delProp (delProp (delProp (delProp kv ''x1'') ''y1'') ''x2'') ''y2''
             in JObj (setProp rest ''points''
                        (JArr [the (map_of kv ''x1''), the (map_of kv ''y1''),
                               the (map_of kv ''x2''), the (map_of kv ''y2'')])))
          else shape
      | _ \<Rightarrow> shape)"

definition normalizeShapesInObject :: "json \<Rightarrow> json" where
  "normalizeShapesInObject obj =
     (case getProp obj ''shapes'' of
        Some (JArr shapes) \<Rightarrow>
          JObj (setProp (fieldsOf obj) ''shapes'' (JArr (map normalizeLineShape shapes)))
      | _ \<Rightarrow> obj)"

text \<open>
  The callback of \<open>commands.map\<close> in \<open>normalizeCommandArray\<close>. Reading \<open>.type\<close> of
  \<open>null\<close> and calling \<open>.map\<close> on a truthy \<open>patch.shapes\<close> that is no array throw a
  \<open>TypeError\<close>.
\<close>

definition normalizeCommand :: "(json \<Rightarrow> string) \<Rightarrow> string \<Rightarrow> json \<Rightarrow> js_error + json" where
  "normalizeCommand toStr now c =
     (let normalized =
            normalizeMissingPatch (normalizeTargetId (normalizeLegacyCommand toStr now c))
      in if normalized = JNull then Inl TypeError
         else if (getProp normalized ''type'' = Some (JStr ''add_preview_object'') \<or>
                  getProp normalized ''type'' = Some (JStr ''add_object'')) \<and>
                 truthyO (getProp normalized ''object'')
         then Inr (JObj (setProp (fieldsOf normalized) ''object''
                           (normalizeShapesInObject (the (getProp normalized ''object'')))))
         else if getProp normalized ''type'' = Some (JStr ''update_preview_object'') \<or>
                 getProp normalized ''type'' = Some (JStr ''update_object'')
         then
           (case getProp normalized ''patch'' of
              None \<Rightarrow> Inr normalized
            | Some JNull \<Rightarrow> Inr normalized
            | Some patch \<Rightarrow>
                (case getProp patch ''shapes'' of
                   None \<Rightarrow> Inr normalized
                 | Some shapes \<Rightarrow>
                     if \<not> truthy shapes then Inr normalized
                     else
                       (case shapes of
                          JArr ss \<Rightarrow>
                            Inr (JObj (setProp (fieldsOf normalized) ''patch''
                                         (JObj (setProp (fieldsOf patch) ''shapes''
                                                  (JArr (map normalizeLineShape ss))))))
                        | _ \<Rightarrow> Inl TypeError)))
         else Inr normalized)"

text \<open>\<open>commands.map\<close> over the array; \<open>clock i\<close> is what \<open>Date.now()\<close> reads at the i-th command.\<close>

fun normalizeEach ::
  "(json \<Rightarrow> string) \<Rightarrow> (nat \<Rightarrow> string) \<Rightarrow> nat \<Rightarrow> json list \<Rightarrow> js_error + json list" where
  "normalizeEach toStr clock i [] = Inr []"
| "normalizeEach toStr clock i (c # cs) =
     (case normalizeCommand toStr (clock i) c of
        Inl e \<Rightarrow> Inl e
      | Inr c' \<Rightarrow>
          (case normalizeEach toStr clock (Suc i) cs of
             Inl e \<Rightarrow> Inl e
           | Inr cs' \<Rightarrow> Inr (c' # cs')))"

definition normalizeCommandArray ::
  "(json \<Rightarrow> string) \<Rightarrow> (nat \<Rightarrow> string) \<Rightarrow> json \<Rightarrow> js_error + json" where
  "normalizeCommandArray toStr clock commands =
     (case commands of
        JArr cs \<Rightarrow> (case normalizeEach toStr clock 0 cs of Inl e \<Rightarrow> Inl e | Inr cs' \<Rightarrow> Inr (JArr cs'))
      | _ \<Rightarrow> Inr commands)"

text \<open>
  The two steps as the director runs them on the parsed text: \<open>normalizeToEnvelope\<close>,
  then \<open>normalizeCommandArray\<close> on the candidate's \<open>commands\<close> when that is an array.
\<close>

definition normalizedCandidate ::
  "(json \<Rightarrow> string) \<Rightarrow> (nat \<Rightarrow> string) \<Rightarrow> json \<Rightarrow> js_error + json" where
  "normalizedCandidate toStr clock parsed =
     (let envelopeCandidate = normalizeToEnvelope parsed
      in if truthy envelopeCandidate \<and> isObjectLike envelopeCandidate then
           (case getProp envelopeCandidate ''commands'' of
              Some (JArr cs) \<Rightarrow>
                (case normalizeCommandArray toStr clock (JArr cs) of
                   Inl e \<Rightarrow> Inl e
                 | Inr commands \<Rightarrow>
                     Inr (JObj (setProp (fieldsOf envelopeCandidate) ''commands'' commands)))
            | _ \<Rightarrow> Inr envelopeCandidate)
         else Inr envelopeCandidate)"

section \<open>Vocabulary for the reducer's properties\<close>

text \<open>
  The order key of the object stored under an id, and the relation the reducer keeps
  between ids that follow each other in \<open>order\<close>: the earlier key is not greater.
\<close>

definition keyOf :: "scene_graph \<Rightarrow> string \<Rightarrow> number" where
  "keyOf scene i = (case objects scene i of Some obj \<Rightarrow> orderKey obj | None \<Rightarrow> NaN)"

definition notAfter :: "scene_graph \<Rightarrow> string \<Rightarrow> string \<Rightarrow> bool" where
  "notAfter scene a b = (\<not> greater (keyOf scene a) (keyOf scene b))"

text \<open>
  What every reachable scene satisfies: \<open>order\<close> has no duplicates and lists only stored
  ids; a stored id missing from \<open>order\<close> names a member of \<open>Object.prototype\<close> and
  its object still has the key 910 of an object without layer and tag; and \<open>order\<close> is
  sorted by key.
\<close>

definition sceneInv :: "scene_graph \<Rightarrow> bool" where
  "sceneInv scene =
     (distinct (order scene) \<and> set (order scene) \<subseteq> dom (objects scene) \<and>
      (\<forall>i obj. objects scene i = Some obj \<and> i \<notin> set (order scene) \<longrightarrow>
         orderKey obj = Num 910 \<and> i \<in> set objectPrototypeKeys) \<and>
      sorted_wrt (notAfter scene) (order scene))"

text \<open>\<open>a\<close> occurs in the list and \<open>b\<close> occurs after its first occurrence.\<close>

fun appearsBefore :: "'a \<Rightarrow> 'a \<Rightarrow> 'a list \<Rightarrow> bool" where
  "appearsBefore a b [] = False"
| "appearsBefore a b (x # xs) = (if x = a then b \<in> set xs else appearsBefore a b xs)"

text \<open>The three commands the reducer accepts and ignores.\<close>

definition isInert :: "command \<Rightarrow> bool" where
  "isInert c = (case c of SetBackgroundGradient _ \<Rightarrow> True | SetGroundFill _ \<Rightarrow> True
     | SetPath _ _ _ _ \<Rightarrow> True | _ \<Rightarrow> False)"




text \<open>Two objects of the sky layer, used as concrete inputs below.\<close>

definition sunObject :: scene_object where
  "sunObject = \<lparr> o_id = Some ''sun-1'', o_status = Some ''committed'', o_layer = Some ''sky'',
     o_transform = Some \<lparr> t_x = 78, t_y = 20, t_scale = 1, t_rotation = 0 \<rparr>,
     o_semanticTag = Some ''sun'',
     o_shapes = Some [\<lparr> s_type = ''circle'', s_x = Some 0, s_y = Some 0, s_width = None,
       s_height = None, s_other = [(''id'', ''sun-core''), (''radius'', ''10'')] \<rparr>] \<rparr>"

definition skyObject :: scene_object where
  "skyObject = \<lparr> o_id = Some ''sky-1'', o_status = Some ''committed'', o_layer = Some ''sky'',
     o_transform = Some \<lparr> t_x = 0, t_y = 0, t_scale = 1, t_rotation = 0 \<rparr>,
     o_semanticTag = Some ''sky'',
     o_shapes = Some [\<lparr> s_type = ''rect'', s_x = Some 0, s_y = Some 0, s_width = Some 100,
       s_height = Some 45, s_other = [(''id'', ''sky-rect''), (''fill'', ''#7ec8ff'')] \<rparr>] \<rparr>"

text \<open>
  A patch that only moves an object to another layer, the four commands that add the sun
  and the sky and move both to the layer \<open>"constructor"\<close>, and the two updates as the
  validator receives them.
\<close>

definition layerPatch :: "string \<Rightarrow> patch" where
  "layerPatch l = \<lparr> p_layer = Some l, p_status = None, p_transform = None,
     p_semanticTag = None, p_shapes = None \<rparr>"

definition inheritedLayerCommands :: "command list" where
  "inheritedLayerCommands =
     [AddObject sunObject, AddObject skyObject,
      UpdateObject ''sun-1'' (layerPatch ''constructor''),
      UpdateObject ''sky-1'' (layerPatch ''constructor'')]"

definition layerUpdateCommand :: "string \<Rightarrow> json" where
  "layerUpdateCommand i =
     JObj [(''type'', JStr ''update_object''), (''id'', JStr i),
       (''patch'', JObj [(''layer'', JStr ''constructor'')])]"

text \<open>One command of each of the three kinds, as the validator receives it.\<close>

definition gradientCommand :: json where
  "gradientCommand =
     JObj [(''type'', JStr ''set_background_gradient''),
       (''gradient'', JObj [(''kind'', JStr ''linear''),
          (''from'', JObj [(''x'', JNum 0), (''y'', JNum 0)]),
          (''to'', JObj [(''x'', JNum 0), (''y'', JNum 100)]),
          (''stops'', JArr [JObj [(''offset'', JNum 0), (''color'', JStr ''#7ec8ff'')],
             JObj [(''offset'', JNum 1), (''color'', JStr ''#ffffff'')]])])]"

definition groundFillCommand :: json where
  "groundFillCommand = JObj [(''type'', JStr ''set_ground_fill''), (''fill'', JStr ''#3db85a'')]"

definition pathCommand :: json where
  "pathCommand =
     JObj [(''type'', JStr ''set_path''), (''id'', JStr ''path-1''),
       (''bezierPoints'', JArr [JObj [(''x'', JNum 10), (''y'', JNum 90)],
          JObj [(''x'', JNum 50), (''y'', JNum 50)]]),
       (''widthNear'', JNum 8), (''widthFar'', JNum 2)]"

section \<open>Vocabulary for band tiling\<close>

text \<open>
  A list of rects tiles downwards from \<open>y\<close>: each rect starts where the one before it
  ends.
\<close>

fun contiguousFrom :: "real \<Rightarrow> shape list \<Rightarrow> bool" where
  "contiguousFrom y [] = True"
| "contiguousFrom y (s # ss) = (s_y s = Some y \<and> contiguousFrom (y + numOr0 (s_height s)) ss)"

definition heights :: "shape list \<Rightarrow> real list" where
  "heights ss = map (\<lambda>s. numOr0 (s_height s)) ss"

definition band :: "real \<Rightarrow> real \<Rightarrow> string \<Rightarrow> shape" where
  "band y h fill = \<lparr> s_type = ''rect'', s_x = Some 0, s_y = Some y, s_width = Some 100,
     s_height = Some h, s_other = [(''fill'', fill)] \<rparr>"

text \<open>
  The rects \<open>bands\<close> tile the span from 0 to \<open>T\<close>: integer heights that add up to
  \<open>T\<close>, and every rect's \<open>y\<close> is the sum of the heights of the rects before it.
\<close>

definition tiles :: "int \<Rightarrow> shape list \<Rightarrow> bool" where
  "tiles T bands =
     (sum_list (heights bands) = of_int T \<and>
      (\<forall>h \<in> set (heights bands). h \<in> \<int>) \<and>
      (\<forall>i < length bands. s_y (bands ! i) = Some (sum_list (take i (heights bands)))))"

definition exampleStack :: "shape list" where
  "exampleStack = [band 10 5 ''#113'', band 0 7 ''#225'', band 20 50 ''#337'']"

text \<open>
  The layout of the rects in exact integer arithmetic: every rect gets the height \<open>b\<close>,
  the first \<open>k\<close> of them one more, each starting where the one before it ends.
\<close>

fun exactBands :: "int \<Rightarrow> nat \<Rightarrow> int \<Rightarrow> shape list \<Rightarrow> shape list" where
  "exactBands b k y [] = []"
| "exactBands b k y (r # rs) =
     (let h = b + (if 0 < k then 1 else 0)
      in r\<lparr> s_x := Some 0, s_y := Some (of_int y), s_width := Some 100,
            s_height := Some (of_int h) \<rparr> # exactBands b (k - 1) (y + h) rs)"

section \<open>Vocabulary for the safety guard\<close>

text \<open>The commands of a list that are not batches, those inside batches included.\<close>

fun leafCommands :: "command list \<Rightarrow> command list"
  and leavesOf :: "command \<Rightarrow> command list" where
  "leafCommands [] = []"
| "leafCommands (c # cs) = leavesOf c @ leafCommands cs"
| "leavesOf (Batch commands) = leafCommands commands"
| "leavesOf c = [c]"

text \<open>The commands the guard drops for an utterance, and what it does to the others.\<close>

definition dropped :: "string \<Rightarrow> command \<Rightarrow> bool" where
  "dropped utterance c =
     (case c of
        DeleteObject _ \<Rightarrow> \<not> userExplicitlyWantsDelete utterance
      | CancelPreviewObject _ \<Rightarrow> \<not> userExplicitlyWantsCancel utterance
      | _ \<Rightarrow> False)"

definition withoutTag :: "string \<Rightarrow> patch \<Rightarrow> patch" where
  "withoutTag utterance p =
     (if userExplicitlyWantsConvert utterance then p else p\<lparr> p_semanticTag := None \<rparr>)"

definition softened :: "string \<Rightarrow> command \<Rightarrow> command" where
  "softened utterance c =
     (case c of
        UpdateObject ident p \<Rightarrow> UpdateObject ident (withoutTag utterance p)
      | UpdatePreviewObject ident p \<Rightarrow> UpdatePreviewObject ident (withoutTag utterance p)
      | _ \<Rightarrow> c)"

text \<open>
  What the guard is to return, batch by batch: a dropped command disappears from the list
  it is in, a batch stays where it is with its own list treated the same way, and every
  other command stays where it is, an update with its patch possibly without
  \<open>semanticTag\<close>.
\<close>

fun guardedList :: "string \<Rightarrow> command list \<Rightarrow> command list"
  and guardedCommand :: "string \<Rightarrow> command \<Rightarrow> command" where
  "guardedList utterance [] = []"
| "guardedList utterance (c # cs) =
     (if dropped utterance c then guardedList utterance cs
      else guardedCommand utterance c # guardedList utterance cs)"
| "guardedCommand utterance (Batch commands) = Batch (guardedList utterance commands)"
| "guardedCommand utterance c = softened utterance c"

text \<open>
  Modelled from the spec's words, for comparison with the code: the utterance contains
  one of delete, remove, erase, clear, discard, wipe, cancel, undo, read as the guard
  reads its own word lists.
\<close>

definition spec_containsDestructiveVocabulary :: "string \<Rightarrow> bool" where
  "spec_containsDestructiveVocabulary utterance =
     wordRegexTest [''delete'', ''remove'', ''erase'', ''clear'', ''discard'', ''wipe'',
       ''cancel'', ''undo''] None utterance"

section \<open>Vocabulary for validation\<close>

text \<open>A command is part of another: the command itself, or a part of a batch's inner command.\<close>

inductive partOf :: "json \<Rightarrow> json \<Rightarrow> bool" where
  self: "partOf c c"
| inner: "map_of kv ''type'' = Some (JStr ''batch'') \<Longrightarrow>
          map_of kv ''commands'' = Some (JArr commands) \<Longrightarrow>
          d \<in> set commands \<Longrightarrow> partOf c d \<Longrightarrow> partOf c (JObj kv)"

definition badUpdate :: "(string \<times> json) list" where
  "badUpdate = [(''type'', JStr ''update_object''), (''id'', JStr ''tree-1''),
     (''patch'', JObj [(''id'', JStr ''tree-2'')])]"

definition badEnvelope :: "(string \<times> json) list" where
  "badEnvelope = [(''commands'', JArr [JObj [(''type'', JStr ''batch''),
     (''commands'', JArr [JObj badUpdate])]])]"

section \<open>Vocabulary for normalization\<close>

text \<open>The twelve discriminators of \<open>DrawingCommandSchema\<close>.\<close>

definition commandTypes :: "string list" where
  "commandTypes = [''set_scene_intent'', ''add_preview_object'', ''update_preview_object'',
     ''commit_preview_object'', ''cancel_preview_object'', ''add_object'', ''update_object'',
     ''delete_object'', ''set_background_gradient'', ''set_ground_fill'', ''set_path'', ''batch'']"

text \<open>The keys each command variant declares in \<open>DrawingCommandSchema\<close>.\<close>

definition declaredKeys :: "string \<Rightarrow> string list" where
  "declaredKeys t =
     (if t = ''set_scene_intent'' then [''type'', ''intent'']
      else if t = ''add_preview_object'' \<or> t = ''add_object'' then [''type'', ''object'']
      else if t = ''update_preview_object'' \<or> t = ''update_object'' then [''type'', ''id'', ''patch'']
      else if t = ''commit_preview_object'' \<or> t = ''cancel_preview_object'' \<or> t = ''delete_object''
        then [''type'', ''id'']
      else if t = ''set_background_gradient'' then [''type'', ''gradient'']
      else if t = ''set_ground_fill'' then [''type'', ''fill'']
      else if t = ''set_path'' then [''type'', ''id'', ''bezierPoints'', ''widthNear'', ''widthFar'']
      else if t = ''batch'' then [''type'', ''commands'']
      else [])"

text \<open>
  A command, and the commands inside it when it is a batch, have no key beyond those
  their variant declares: what a value of the type \<open>DrawingCommand\<close> looks like.
\<close>

function (sequential) exactCommand :: "json \<Rightarrow> bool" where
  "exactCommand (JObj kv) =
     (case map_of kv ''type'' of
        Some (JStr t) \<Rightarrow>
          list_all (\<lambda>k. k \<in> set (declaredKeys t)) (map fst kv) \<and>
          (case map_of kv ''commands'' of
             Some (JArr commands) \<Rightarrow> list_all exactCommand commands
           | _ \<Rightarrow> True)
      | _ \<Rightarrow> False)"
| "exactCommand _ = False"
  by pat_completeness auto
termination
  apply (relation "measure size")
   apply simp
  apply (simp only: in_measure)
  apply (erule (1) size_field_element)
  done

definition exactEnvelope :: "json \<Rightarrow> bool" where
  "exactEnvelope e =
     (case e of
        JObj kv \<Rightarrow>
          list_all (\<lambda>k. k \<in> set [''commands'', ''notes'', ''refused'', ''refusalReason''])
            (map fst kv) \<and>
          (case map_of kv ''commands'' of
             Some (JArr commands) \<Rightarrow> list_all exactCommand commands
           | _ \<Rightarrow> False)
      | _ \<Rightarrow> False)"

text \<open>
  \<open>PatchSchema\<close> accepts any value as \<open>shapes\<close>. This is the patch of a command whose
  \<open>shapes\<close>, when present, are what \<open>SceneObjectSchema\<close> would accept as shapes of an
  object: an array of valid vector shapes.
\<close>

definition patchShapesValid :: "json \<Rightarrow> bool" where
  "patchShapesValid c =
     (case getProp c ''patch'' of
        Some (JObj p) \<Rightarrow> optional p ''shapes'' (zArray VectorShapeSchema)
      | _ \<Rightarrow> True)"

definition topLevelPatchShapesValid :: "json \<Rightarrow> bool" where
  "topLevelPatchShapesValid e =
     (case getProp e ''commands'' of
        Some (JArr commands) \<Rightarrow> list_all patchShapesValid commands
      | _ \<Rightarrow> True)"

text \<open>
  Two envelopes that pass \<open>CommandEnvelopeSchema\<close>: an update whose patch carries a line
  in the legacy form, and an update with a stray \<open>objectId\<close> beside its \<open>id\<close>.
\<close>

definition legacyLineEnvelope :: json where
  "legacyLineEnvelope =
     JObj [(''commands'', JArr [JObj [(''type'', JStr ''update_object''), (''id'', JStr ''fence-1''),
       (''patch'', JObj [(''shapes'', JArr [JObj [(''id'', JStr ''rail''), (''type'', JStr ''line''),
          (''x1'', JNum 0), (''y1'', JNum 0), (''x2'', JNum 10), (''y2'', JNum 10)]])])]])]"

definition strayKeyEnvelope :: json where
  "strayKeyEnvelope =
     JObj [(''commands'', JArr [JObj [(''type'', JStr ''delete_object''), (''id'', JStr ''fence-1''),
       (''objectId'', JStr ''fence-1'')]])]"

definition plainEnvelope :: json where
  "plainEnvelope =
     JObj [(''commands'', JArr [
        JObj [(''type'', JStr ''add_object''),
              (''object'', JObj [(''id'', JStr ''fence-1''), (''status'', JStr ''committed''),
                 (''layer'', JStr ''ground''),
                 (''transform'', JObj [(''x'', JNum 20), (''y'', JNum 60), (''scale'', JNum 1),
                    (''rotation'', JNum 0)]),
                 (''shapes'', JArr [JObj [(''id'', JStr ''rail''), (''type'', JStr ''line''),
                    (''points'', JArr [JNum 0, JNum 0, JNum 10, JNum 10])]])])],
        JObj [(''type'', JStr ''batch''),
              (''commands'', JArr [JObj [(''type'', JStr ''update_object''), (''id'', JStr ''fence-1''),
                 (''patch'', JObj [(''layer'', JStr ''foreground'')])]])]]),
       (''notes'', JStr ''fence added'')]"

section \<open>Properties of the reducer\<close>

subsection \<open>Insertion by order key\<close>

lemma getObject_own: "objects scene i = Some obj \<Longrightarrow> getObject scene i = Some obj"
  by (simp add: getObject_def)

lemma getObject_dom: "i \<in> dom (objects scene) \<Longrightarrow> getObject scene i = objects scene i"
  by (auto simp add: getObject_def)

lemma greater_trans_le:
  "greater a k \<Longrightarrow> \<not> greater a b \<Longrightarrow> \<not> greater k b"
  by (cases a; cases k; cases b) auto

lemma greater_asym: "greater a k \<Longrightarrow> \<not> greater k a"
  by (cases a; cases k) auto

lemma findInsertIndex_le: "findInsertIndex scene k xs \<le> length xs"
  by (induction xs) (auto split: option.splits)

lemma findInsertIndex_prefix:
  "set xs \<subseteq> dom (objects scene) \<Longrightarrow>
   x \<in> set (take (findInsertIndex scene k xs) xs) \<Longrightarrow> \<not> greater (keyOf scene x) k"
proof (induction xs)
  case Nil
  then show ?case by simp
next
  case (Cons y ys)
  from Cons.prems(1) obtain obj where obj: "objects scene y = Some obj" by auto
  show ?case
  proof (cases "greater (orderKey obj) k")
    case True
    with Cons.prems getObject_own [OF obj] show ?thesis by simp
  next
    case False
    with Cons getObject_own [OF obj] obj show ?thesis by (auto simp: keyOf_def)
  qed
qed

lemma findInsertIndex_suffix:
  "set xs \<subseteq> dom (objects scene) \<Longrightarrow> sorted_wrt (notAfter scene) xs \<Longrightarrow>
   y \<in> set (drop (findInsertIndex scene k xs) xs) \<Longrightarrow> \<not> greater k (keyOf scene y)"
proof (induction xs)
  case Nil
  then show ?case by simp
next
  case (Cons z zs)
  from Cons.prems(1) obtain obj where obj: "objects scene z = Some obj" by auto
  show ?case
  proof (cases "greater (orderKey obj) k")
    case True
    then have idx: "findInsertIndex scene k (z # zs) = 0"
      using getObject_own [OF obj] by simp
    have kz: "keyOf scene z = orderKey obj" using obj by (simp add: keyOf_def)
    from Cons.prems(3) idx have "y = z \<or> y \<in> set zs" by simp
    then show ?thesis
    proof
      assume "y = z"
      with True kz greater_asym [of "orderKey obj" k] show ?thesis by simp
    next
      assume "y \<in> set zs"
      with Cons.prems(2) have "\<not> greater (keyOf scene z) (keyOf scene y)"
        by (simp add: notAfter_def)
      with True kz greater_trans_le [of "orderKey obj" k "keyOf scene y"] show ?thesis by simp
    qed
  next
    case False
    then have idx: "findInsertIndex scene k (z # zs) = Suc (findInsertIndex scene k zs)"
      using getObject_own [OF obj] by simp
    with Cons show ?thesis by simp
  qed
qed

lemma sorted_wrt_insert_at:
  assumes "sorted_wrt R xs"
    and "\<And>x. x \<in> set (take n xs) \<Longrightarrow> R x a"
    and "\<And>y. y \<in> set (drop n xs) \<Longrightarrow> R a y"
  shows "sorted_wrt R (take n xs @ a # drop n xs)"
proof -
  from assms(1) have "sorted_wrt R (take n xs @ drop n xs)" by simp
  then have *: "sorted_wrt R (take n xs) \<and> sorted_wrt R (drop n xs) \<and>
    (\<forall>x\<in>set (take n xs). \<forall>y\<in>set (drop n xs). R x y)"
    using sorted_wrt_append [of R "take n xs" "drop n xs"] by blast
  show ?thesis
    by (simp add: sorted_wrt_append * assms(2,3))
qed

text \<open>Re-inserting the object stored under \<open>ident\<close> keeps the order sorted by key.\<close>

lemma insertIntoOrder_sorted:
  assumes own: "objects scene ident = Some obj"
    and sub: "set (order scene) \<subseteq> dom (objects scene)"
    and srt: "sorted_wrt (notAfter scene) (filter (\<lambda>x. x \<noteq> ident) (order scene))"
  shows "sorted_wrt (notAfter scene) (insertIntoOrder scene ident)"
proof -
  let ?w = "filter (\<lambda>x. x \<noteq> ident) (order scene)"
  let ?n = "findInsertIndex scene (orderKey obj) ?w"
  have subw: "set ?w \<subseteq> dom (objects scene)" using sub by auto
  have k: "keyOf scene ident = orderKey obj" using own by (simp add: keyOf_def)
  have "sorted_wrt (notAfter scene) (take ?n ?w @ ident # drop ?n ?w)"
  proof (rule sorted_wrt_insert_at [OF srt])
    fix x assume "x \<in> set (take ?n ?w)"
    from findInsertIndex_prefix [OF subw this] show "notAfter scene x ident"
      by (simp add: notAfter_def k)
  next
    fix y assume "y \<in> set (drop ?n ?w)"
    from findInsertIndex_suffix [OF subw srt this] show "notAfter scene ident y"
      by (simp add: notAfter_def k)
  qed
  then show ?thesis
    using getObject_own [OF own] by (simp add: insertIntoOrder_def Let_def)
qed

lemma set_insert_at: "set (take n xs @ a # drop n xs) = insert a (set xs)"
proof -
  have "set (take n xs) \<union> set (drop n xs) = set xs"
    by (metis append_take_drop_id set_append)
  then show ?thesis by auto
qed

lemma distinct_insert_at:
  assumes "distinct xs" and "a \<notin> set xs"
  shows "distinct (take n xs @ a # drop n xs)"
proof -
  from assms(1) have "distinct (take n xs @ drop n xs)" by simp
  then have "distinct (take n xs) \<and> distinct (drop n xs) \<and>
    set (take n xs) \<inter> set (drop n xs) = {}"
    using distinct_append [of "take n xs" "drop n xs"] by blast
  moreover from assms(2) have "a \<notin> set (take n xs)" "a \<notin> set (drop n xs)"
    by (blast dest: in_set_takeD in_set_dropD)+
  ultimately show ?thesis by simp
qed

lemma insertIntoOrder_set:
  "objects scene ident = Some obj \<Longrightarrow>
   set (insertIntoOrder scene ident) = insert ident (set (order scene))"
  using getObject_own [of scene ident obj]
  by (auto simp add: insertIntoOrder_def Let_def set_insert_at simp del: set_append)

lemma insertIntoOrder_distinct:
  "objects scene ident = Some obj \<Longrightarrow> distinct (order scene) \<Longrightarrow>
   distinct (insertIntoOrder scene ident)"
  using getObject_own [of scene ident obj]
  by (simp add: insertIntoOrder_def Let_def distinct_insert_at del: distinct_append)

subsection \<open>Every command keeps the scene invariant\<close>

lemma keyOf_objects_cong:
  "objects s' = objects s \<Longrightarrow> keyOf s' = keyOf s"
  by (rule ext) (simp add: keyOf_def)

lemma notAfter_objects_cong:
  "objects s' = objects s \<Longrightarrow> notAfter s' = notAfter s"
  using keyOf_objects_cong [of s' s] by (simp add: notAfter_def fun_eq_iff)

lemma keyOf_upd_other:
  "i \<noteq> ident \<Longrightarrow> keyOf (s\<lparr>objects := (objects s)(ident \<mapsto> obj)\<rparr>) i = keyOf s i"
  by (simp add: keyOf_def)

lemma sorted_wrt_upd_other:
  assumes "sorted_wrt (notAfter s) xs" and "ident \<notin> set xs"
  shows "sorted_wrt (notAfter (s\<lparr>objects := (objects s)(ident \<mapsto> obj)\<rparr>)) xs"
proof (rule sorted_wrt_mono_rel [OF _ assms(1)])
  fix x y assume xy: "x \<in> set xs" "y \<in> set xs" and n: "notAfter s x y"
  from xy assms(2) have "x \<noteq> ident" "y \<noteq> ident" by auto
  with n show "notAfter (s\<lparr>objects := (objects s)(ident \<mapsto> obj)\<rparr>) x y"
    by (simp add: notAfter_def keyOf_upd_other)
qed

lemma sceneInvI:
  assumes "distinct (order s)" and "set (order s) \<subseteq> dom (objects s)"
    and "\<And>i ob. objects s i = Some ob \<Longrightarrow> i \<notin> set (order s) \<Longrightarrow>
           orderKey ob = Num 910 \<and> i \<in> set objectPrototypeKeys"
    and "sorted_wrt (notAfter s) (order s)"
  shows "sceneInv s"
  unfolding sceneInv_def using assms by blast

lemma sceneInvD:
  assumes "sceneInv s"
  shows "distinct (order s)" and "set (order s) \<subseteq> dom (objects s)"
    and "sorted_wrt (notAfter s) (order s)"
  using assms unfolding sceneInv_def by blast+

lemma sceneInv_stray:
  assumes "sceneInv s" and "objects s i = Some ob" and "i \<notin> set (order s)"
  shows "orderKey ob = Num 910" and "i \<in> set objectPrototypeKeys"
  using assms unfolding sceneInv_def by blast+

lemma reinsert_inv:
  assumes inv: "sceneInv s"
  shows "sceneInv (s\<lparr>objects := (objects s)(ident \<mapsto> obj),
           order := insertIntoOrder (s\<lparr>objects := (objects s)(ident \<mapsto> obj)\<rparr>) ident\<rparr>)"
    (is "sceneInv ?r")
proof (rule sceneInvI)
  let ?n = "s\<lparr>objects := (objects s)(ident \<mapsto> obj)\<rparr>"
  note d = sceneInvD(1) [OF inv] and sub = sceneInvD(2) [OF inv] and srt = sceneInvD(3) [OF inv]
  have own: "objects ?n ident = Some obj" by simp
  have ord: "order ?n = order s" by simp
  have subn: "set (order ?n) \<subseteq> dom (objects ?n)" using sub by auto
  have "sorted_wrt (notAfter s) (filter (\<lambda>x. x \<noteq> ident) (order s))"
    using srt by (rule sorted_wrt_filter)
  then have "sorted_wrt (notAfter ?n) (filter (\<lambda>x. x \<noteq> ident) (order ?n))"
    unfolding ord by (rule sorted_wrt_upd_other) simp
  from insertIntoOrder_sorted [OF own subn this]
  have s1: "sorted_wrt (notAfter ?n) (insertIntoOrder ?n ident)" .
  have nr: "notAfter ?r = notAfter ?n" by (rule notAfter_objects_cong) simp
  have set1: "set (insertIntoOrder ?n ident) = insert ident (set (order s))"
    using insertIntoOrder_set [OF own] by simp
  show "distinct (order ?r)" using insertIntoOrder_distinct [OF own] d by simp
  show "set (order ?r) \<subseteq> dom (objects ?r)" using set1 sub by auto
  show "sorted_wrt (notAfter ?r) (order ?r)" using s1 nr by simp
  fix i ob assume o: "objects ?r i = Some ob" and n: "i \<notin> set (order ?r)"
  from n set1 have ne: "i \<noteq> ident" and n': "i \<notin> set (order s)" by auto
  from o ne have o': "objects s i = Some ob" by simp
  from sceneInv_stray [OF inv o' n']
  show "orderKey ob = Num 910 \<and> i \<in> set objectPrototypeKeys" by simp
qed

lemma orderKey_inheritedMember: "orderKey inheritedMember = Num 910"
  by (simp add: orderKey_def inheritedMember_def computeOrderKey_def getLayerRank_def
      getBackdropRank_def isBackdrop_def)

lemma getObject_cases:
  assumes "getObject s ident = Some existing"
  obtains (own) "objects s ident = Some existing"
  | (inherited) "objects s ident = None" "ident \<in> set objectPrototypeKeys"
      "existing = inheritedMember"
  using assms by (auto simp: getObject_def split: option.splits if_splits)

lemma replace_inv:
  assumes inv: "sceneInv s" and ex: "getObject s ident = Some existing"
    and keq: "orderKey updated = orderKey existing"
  shows "sceneInv (s\<lparr>objects := (objects s)(ident \<mapsto> updated)\<rparr>)" (is "sceneInv ?r")
proof (rule sceneInvI)
  note d = sceneInvD(1) [OF inv] and sub = sceneInvD(2) [OF inv] and srt = sceneInvD(3) [OF inv]
  show "distinct (order ?r)" using d by simp
  show "set (order ?r) \<subseteq> dom (objects ?r)" using sub by auto
  show "sorted_wrt (notAfter ?r) (order ?r)"
  proof (cases "ident \<in> set (order s)")
    case False
    from sorted_wrt_upd_other [OF srt False] show ?thesis by simp
  next
    case True
    with sub obtain old where old: "objects s ident = Some old" by auto
    with ex have "old = existing" by (simp add: getObject_def)
    with old keq have "keyOf ?r i = keyOf s i" for i
      by (simp add: keyOf_def)
    then have "notAfter ?r = notAfter s" by (simp add: notAfter_def fun_eq_iff)
    with srt show ?thesis by simp
  qed
  fix i ob assume o: "objects ?r i = Some ob" and n: "i \<notin> set (order ?r)"
  show "orderKey ob = Num 910 \<and> i \<in> set objectPrototypeKeys"
  proof (cases "i = ident")
    case False
    with o have o': "objects s i = Some ob" by simp
    from n have n': "i \<notin> set (order s)" by simp
    from sceneInv_stray [OF inv o' n'] show ?thesis by simp
  next
    case True
    with o have ob: "ob = updated" by simp
    from ex show ?thesis
    proof (cases rule: getObject_cases)
      case own
      from n True have "ident \<notin> set (order s)" by simp
      from sceneInv_stray [OF inv own this] True keq ob show ?thesis by simp
    next
      case inherited
      with True keq ob orderKey_inheritedMember show ?thesis by simp
    qed
  qed
qed

lemma remove_inv:
  assumes inv: "sceneInv s"
  shows "sceneInv (s\<lparr>objects := (objects s)(ident := None),
           order := filter (\<lambda>i. i \<noteq> ident) (order s)\<rparr>)" (is "sceneInv ?r")
proof (rule sceneInvI)
  note d = sceneInvD(1) [OF inv] and sub = sceneInvD(2) [OF inv] and srt = sceneInvD(3) [OF inv]
  show "distinct (order ?r)" using d by simp
  show "set (order ?r) \<subseteq> dom (objects ?r)" using sub by auto
  have "sorted_wrt (notAfter s) (order ?r)"
    using srt by (simp add: sorted_wrt_filter)
  then show "sorted_wrt (notAfter ?r) (order ?r)"
  proof (rule sorted_wrt_mono_rel [rotated])
    fix x y assume "x \<in> set (order ?r)" "y \<in> set (order ?r)" "notAfter s x y"
    then show "notAfter ?r x y" by (simp add: notAfter_def keyOf_def)
  qed
  fix i ob assume o: "objects ?r i = Some ob" and n: "i \<notin> set (order ?r)"
  from o have ne: "i \<noteq> ident" by (auto split: if_splits)
  with o n have "objects s i = Some ob" "i \<notin> set (order s)" by simp_all
  from sceneInv_stray [OF inv this]
  show "orderKey ob = Num 910 \<and> i \<in> set objectPrototypeKeys" by simp
qed

lemma strictEq_imp_eq: "strictEq a b \<Longrightarrow> a = b"
  by (cases a; cases b) auto

lemma addObject_inv: "sceneInv s \<Longrightarrow> sceneInv (addObject s obj)"
  by (cases "getObject s (objectKey obj)") (simp_all add: addObject_def Let_def reinsert_inv)

lemma updateObject_inv:
  assumes "sceneInv s"
  shows "sceneInv (updateObject s ident p)"
proof (cases "getObject s ident")
  case None
  with assms show ?thesis by (simp add: updateObject_def)
next
  case (Some existing)
  show ?thesis
  proof (cases "strictEq (orderKey existing) (orderKey (patchObject existing p))")
    case True
    then have "orderKey (patchObject existing p) = orderKey existing"
      using strictEq_imp_eq by fastforce
    from replace_inv [OF assms Some this] True Some show ?thesis
      by (simp add: updateObject_def Let_def)
  next
    case False
    with Some reinsert_inv [OF assms] show ?thesis
      by (simp add: updateObject_def Let_def)
  qed
qed

lemma commitObject_inv:
  assumes "sceneInv s"
  shows "sceneInv (commitObject s ident)"
proof (cases "getObject s ident")
  case None
  with assms show ?thesis by (simp add: commitObject_def)
next
  case (Some existing)
  have "orderKey (existing\<lparr>o_status := Some ''committed''\<rparr>) = orderKey existing"
    by (simp add: orderKey_def)
  from replace_inv [OF assms Some this] assms Some show ?thesis
    by (simp add: commitObject_def Let_def)
qed

lemma removeObject_inv: "sceneInv s \<Longrightarrow> sceneInv (removeObject s ident)"
  by (cases "getObject s ident") (simp_all add: removeObject_def remove_inv)

lemma sceneInv_intent:
  assumes "sceneInv s"
  shows "sceneInv (s\<lparr>intent := i\<rparr>)"
proof -
  have "notAfter (s\<lparr>intent := i\<rparr>) = notAfter s"
    by (rule notAfter_objects_cong) simp
  with assms show ?thesis by (simp add: sceneInv_def)
qed

lemma foldl_preserves:
  assumes "\<And>x s. x \<in> set xs \<Longrightarrow> P s \<Longrightarrow> P (f s x)" and "P s"
  shows "P (foldl f s xs)"
  using assms by (induction xs arbitrary: s) simp_all

lemma applyCommand_inv: "sceneInv s \<Longrightarrow> sceneInv (applyCommand s c)"
proof (induction c arbitrary: s)
  case (Batch cmds)
  then show ?case by (simp add: foldl_preserves)
qed (simp_all add: addObject_inv updateObject_inv commitObject_inv removeObject_inv
      sceneInv_intent)

lemma createEmptyScene_inv: "sceneInv createEmptyScene"
  by (simp add: sceneInv_def createEmptyScene_def)

lemma applyCommands_inv: "sceneInv s \<Longrightarrow> sceneInv (applyCommands s cs)"
  unfolding applyCommands_def by (rule foldl_preserves) (simp_all add: applyCommand_inv)

lemma reachable_inv: "sceneInv (applyCommands createEmptyScene cs)"
  by (rule applyCommands_inv) (rule createEmptyScene_inv)

lemma sorted_wrt_appearsBefore:
  assumes "sorted_wrt R xs" and "a \<in> set xs" and "b \<in> set xs" and "\<not> R b a" and "a \<noteq> b"
  shows "appearsBefore a b xs"
  using assms by (induction xs) auto

subsection \<open>Paint order\<close>

lemma LAYER_RANK_range: "map_of LAYER_RANK l = Some r \<Longrightarrow> 0 \<le> r \<and> r \<le> 3"
  by (auto simp: LAYER_RANK_def split: if_splits)

lemma orderKey_ranked:
  assumes "o_layer obj = Some l" and "map_of LAYER_RANK l = Some r"
  shows "orderKey obj = Num (r * 100 + (if isBackdrop (o_semanticTag obj) then 0 else 10))"
  using assms by (simp add: orderKey_def computeOrderKey_def getLayerRank_def getBackdropRank_def)

lemma ranked_in_order:
  assumes inv: "sceneInv s" and own: "objects s i = Some obj"
    and lay: "o_layer obj = Some l" and rk: "map_of LAYER_RANK l = Some r"
  shows "i \<in> set (order s)"
proof (rule ccontr)
  assume "i \<notin> set (order s)"
  from sceneInv_stray(1) [OF inv own this] have "orderKey obj = Num 910" .
  moreover from LAYER_RANK_range [OF rk] have "r * 100 + (if isBackdrop (o_semanticTag obj) then 0 else 10) < 910"
    by (simp split: if_splits)
  ultimately show False using orderKey_ranked [OF lay rk] by simp
qed

lemma plain_id_in_order:
  assumes inv: "sceneInv s" and own: "objects s i = Some obj"
    and plain: "i \<notin> set objectPrototypeKeys"
  shows "i \<in> set (order s)"
proof (rule ccontr)
  assume "i \<notin> set (order s)"
  from sceneInv_stray(2) [OF inv own this] plain show False by simp
qed

lemma orderKey_numeric:
  assumes "getLayerRank (o_layer obj) = Num r"
  shows "orderKey obj = Num (r * 100 + (if isBackdrop (o_semanticTag obj) then 0 else 10))"
  using assms by (simp add: orderKey_def computeOrderKey_def getBackdropRank_def)

lemma getLayerRank_ranked:
  "map_of LAYER_RANK l = Some r \<Longrightarrow> getLayerRank (Some l) = Num r"
  by (simp add: getLayerRank_def)

lemma getLayerRank_unranked:
  "l \<notin> set objectPrototypeKeys \<Longrightarrow> map_of LAYER_RANK l = None \<Longrightarrow> getLayerRank (Some l) = Num 9"
  by (simp add: getLayerRank_def)

lemma keyed_before:
  assumes inv: "sceneInv s"
    and a: "objects s a = Some A" "a \<in> set (order s)"
    and b: "objects s b = Some B" "b \<in> set (order s)"
    and lt: "greater (orderKey B) (orderKey A)"
  shows "appearsBefore a b (order s)"
proof (rule sorted_wrt_appearsBefore [OF sceneInvD(3) [OF inv]])
  show "a \<in> set (order s)" by (rule a(2))
  show "b \<in> set (order s)" by (rule b(2))
  show "\<not> notAfter s b a" using lt a(1) b(1) by (simp add: notAfter_def keyOf_def)
  show "a \<noteq> b"
  proof
    assume "a = b"
    with a(1) b(1) have "A = B" by simp
    with lt show False by (cases "orderKey B") simp_all
  qed
qed

text \<open>
  What the reducer does keep. In every scene reached from the empty scene by a list of
  commands, take two objects listed in \<open>order\<close> whose layers have a numeric rank: one of
  sky, background, ground, foreground, or no layer, or any other name that is not a member
  of \<open>Object.prototype\<close> (rank 9). If they share the layer and the first has a backdrop tag
  while the second has none, or if the first one's layer ranks lower, then the first one's
  id comes before the second one's in \<open>order\<close>, whatever the order of the commands that
  put them there.
\<close>

lemma ordering_of_numeric_layers:
  assumes "objects (applyCommands createEmptyScene cs) a = Some A"
    and "objects (applyCommands createEmptyScene cs) b = Some B"
    and "a \<in> set (order (applyCommands createEmptyScene cs))"
    and "b \<in> set (order (applyCommands createEmptyScene cs))"
    and "getLayerRank (o_layer A) = Num ra" and "getLayerRank (o_layer B) = Num rb"
    and "(o_layer A = o_layer B \<and> isBackdrop (o_semanticTag A) \<and> \<not> isBackdrop (o_semanticTag B))
         \<or> ra < rb"
  shows "appearsBefore a b (order (applyCommands createEmptyScene cs))"
proof (rule keyed_before [OF reachable_inv assms(1,3) assms(2,4)])
  have kA: "orderKey A = Num (ra * 100 + (if isBackdrop (o_semanticTag A) then 0 else 10))"
    using assms(5) by (rule orderKey_numeric)
  have kB: "orderKey B = Num (rb * 100 + (if isBackdrop (o_semanticTag B) then 0 else 10))"
    using assms(6) by (rule orderKey_numeric)
  from assms(7) show "greater (orderKey B) (orderKey A)"
  proof
    assume "o_layer A = o_layer B \<and> isBackdrop (o_semanticTag A) \<and> \<not> isBackdrop (o_semanticTag B)"
    with assms(5,6) kA kB show ?thesis by simp
  next
    assume "ra < rb"
    then have "ra * 100 + 10 < rb * 100" by simp
    with kA kB show ?thesis by (simp split: if_splits)
  qed
qed

text \<open>
  An object whose layer is one of the four ranked layers is always listed in \<open>order\<close>, and
  so is an object whose id is not a member name of \<open>Object.prototype\<close>.
\<close>

lemma ordering_of_ranked_layers:
  assumes "objects (applyCommands createEmptyScene cs) a = Some A"
    and "objects (applyCommands createEmptyScene cs) b = Some B"
    and "o_layer A = Some la" and "map_of LAYER_RANK la = Some ra"
    and "o_layer B = Some lb" and "map_of LAYER_RANK lb = Some rb"
    and "(la = lb \<and> isBackdrop (o_semanticTag A) \<and> \<not> isBackdrop (o_semanticTag B)) \<or> ra < rb"
  shows "appearsBefore a b (order (applyCommands createEmptyScene cs))"
proof (rule ordering_of_numeric_layers [OF assms(1,2)])
  show "a \<in> set (order (applyCommands createEmptyScene cs))"
    using reachable_inv assms(1,3,4) by (rule ranked_in_order)
  show "b \<in> set (order (applyCommands createEmptyScene cs))"
    using reachable_inv assms(2,5,6) by (rule ranked_in_order)
  show "getLayerRank (o_layer A) = Num ra"
    using assms(3,4) by (simp add: getLayerRank_ranked)
  show "getLayerRank (o_layer B) = Num rb"
    using assms(5,6) by (simp add: getLayerRank_ranked)
  show "(o_layer A = o_layer B \<and> isBackdrop (o_semanticTag A) \<and> \<not> isBackdrop (o_semanticTag B))
         \<or> ra < rb"
    using assms(3,5,7) by auto
qed

lemma ordering_of_plain_names:
  assumes "objects (applyCommands createEmptyScene cs) a = Some A"
    and "objects (applyCommands createEmptyScene cs) b = Some B"
    and "a \<notin> set objectPrototypeKeys" and "b \<notin> set objectPrototypeKeys"
    and "o_layer A = Some l" and "o_layer B = Some l" and "l \<notin> set objectPrototypeKeys"
    and "isBackdrop (o_semanticTag A)" and "\<not> isBackdrop (o_semanticTag B)"
  shows "appearsBefore a b (order (applyCommands createEmptyScene cs))"
proof -
  obtain r where r: "getLayerRank (Some l) = Num r"
    using assms(7) by (cases "map_of LAYER_RANK l") (simp_all add: getLayerRank_def)
  show ?thesis
  proof (rule ordering_of_numeric_layers [OF assms(1,2)])
    show "a \<in> set (order (applyCommands createEmptyScene cs))"
      using reachable_inv assms(1,3) by (rule plain_id_in_order)
    show "b \<in> set (order (applyCommands createEmptyScene cs))"
      using reachable_inv assms(2,4) by (rule plain_id_in_order)
    show "getLayerRank (o_layer A) = Num r" using r assms(5) by simp
    show "getLayerRank (o_layer B) = Num r" using r assms(6) by simp
    show "(o_layer A = o_layer B \<and> isBackdrop (o_semanticTag A) \<and> \<not> isBackdrop (o_semanticTag B))
         \<or> r < r"
      using assms(5,6,8,9) by simp
  qed
qed

lemma isBackdrop_sky: "isBackdrop (Some ''sky'')"
  by code_simp

lemma isBackdrop_sun: "\<not> isBackdrop (Some ''sun'')"
  by code_simp

lemma sun_then_sky:
  "applyCommands createEmptyScene [AddObject sunObject, AddObject skyObject] =
     \<lparr> intent = None, objects = [''sun-1'' \<mapsto> sunObject, ''sky-1'' \<mapsto> skyObject],
       order = [''sky-1'', ''sun-1''] \<rparr>"
  by (simp add: applyCommands_def addObject_def createEmptyScene_def getObject_def
      objectKey_def objectPrototypeKeys_def insertIntoOrder_def orderKey_def
      computeOrderKey_def getLayerRank_def getBackdropRank_def LAYER_RANK_def
      isBackdrop_sky isBackdrop_sun sunObject_def skyObject_def)

lemma sky_before_sun:
  "appearsBefore ''sky-1'' ''sun-1''
     (order (applyCommands createEmptyScene [AddObject sunObject, AddObject skyObject]))"
proof -
  have h1: "objects (applyCommands createEmptyScene [AddObject sunObject, AddObject skyObject])
      ''sky-1'' = Some skyObject"
    and h2: "objects (applyCommands createEmptyScene [AddObject sunObject, AddObject skyObject])
      ''sun-1'' = Some sunObject"
    by (simp_all add: sun_then_sky)
  have h3: "o_layer skyObject = Some ''sky''" and h5: "o_layer sunObject = Some ''sky''"
    by (simp_all add: skyObject_def sunObject_def)
  have h4: "map_of LAYER_RANK ''sky'' = Some 0" by (simp add: LAYER_RANK_def)
  have h7: "isBackdrop (o_semanticTag skyObject)" "\<not> isBackdrop (o_semanticTag sunObject)"
    by (simp_all add: skyObject_def sunObject_def isBackdrop_sky isBackdrop_sun)
  from ordering_of_ranked_layers [OF h1 h2 h3 h4 h5 h4] h7 show ?thesis by simp
qed

text \<open>
  Claim C2. The claim says that in every reachable scene a backdrop comes before a
  non-backdrop of the same layer. \<open>getLayerRank\<close> reads \<open>LAYER_RANK[layer]\<close> on a plain
  object, and \<open>PatchSchema\<close> takes any value as \<open>layer\<close>: for the layer
  \<open>"constructor"\<close> the read returns a member of \<open>Object.prototype\<close>, the order key is
  \<open>NaN\<close>, no key compares greater than it, and \<open>insertIntoOrder\<close> appends the id.
  Adding the sun and the sky and then moving the sun, then the sky, to that layer, with
  updates that the validator accepts, leaves the sky, a backdrop, after the sun, which is
  none, both in the same layer.
\<close>

theorem backdrop_after_non_backdrop_in_inherited_layer:
  "DrawingCommandSchema (layerUpdateCommand ''sun-1'') \<and>
   DrawingCommandSchema (layerUpdateCommand ''sky-1'') \<and>
   order (applyCommands createEmptyScene inheritedLayerCommands) = [''sun-1'', ''sky-1''] \<and>
   objects (applyCommands createEmptyScene inheritedLayerCommands) ''sky-1''
     = Some (skyObject\<lparr> o_layer := Some ''constructor'' \<rparr>) \<and>
   objects (applyCommands createEmptyScene inheritedLayerCommands) ''sun-1''
     = Some (sunObject\<lparr> o_layer := Some ''constructor'' \<rparr>) \<and>
   isBackdrop (o_semanticTag skyObject) \<and> \<not> isBackdrop (o_semanticTag sunObject) \<and>
   \<not> appearsBefore ''sky-1'' ''sun-1''
       (order (applyCommands createEmptyScene inheritedLayerCommands))"
proof -
  have valid: "DrawingCommandSchema (layerUpdateCommand ''sun-1'')"
    "DrawingCommandSchema (layerUpdateCommand ''sky-1'')"
    by code_simp+
  have tags: "isBackdrop (o_semanticTag skyObject)" "\<not> isBackdrop (o_semanticTag sunObject)"
    by (simp_all add: skyObject_def sunObject_def isBackdrop_sky isBackdrop_sun)
  have scene: "applyCommands createEmptyScene inheritedLayerCommands =
     \<lparr> intent = None,
       objects = [''sun-1'' \<mapsto> sunObject\<lparr> o_layer := Some ''constructor'' \<rparr>,
                  ''sky-1'' \<mapsto> skyObject\<lparr> o_layer := Some ''constructor'' \<rparr>],
       order = [''sun-1'', ''sky-1''] \<rparr>"
    by (simp add: inheritedLayerCommands_def layerPatch_def applyCommands_def addObject_def
        updateObject_def patchObject_def createEmptyScene_def getObject_def objectKey_def
        objectPrototypeKeys_def insertIntoOrder_def orderKey_def computeOrderKey_def
        getLayerRank_def getBackdropRank_def LAYER_RANK_def isBackdrop_sky isBackdrop_sun
        sunObject_def skyObject_def fun_upd_twist)
  show ?thesis using valid tags by (simp add: scene)
qed

subsection \<open>Order and objects\<close>

text \<open>
  Claim C1. The claim says that after any list of commands \<open>order\<close> is exactly the key
  set of \<open>objects\<close>. The reducer tests \<open>scene.objects[command.id]\<close> for truthiness,
  and for an id such as \<open>"constructor"\<close> that read returns a member of
  \<open>Object.prototype\<close>. An update of that id on the empty scene with an empty patch
  therefore stores an object under \<open>"constructor"\<close> and, the key being unchanged,
  leaves \<open>order\<close> empty.
\<close>

theorem reachable_bijection_fails:
  "dom (objects (applyCommands createEmptyScene
      [UpdateObject ''constructor'' \<lparr> p_layer = None, p_status = None, p_transform = None,
         p_semanticTag = None, p_shapes = None \<rparr>])) = {''constructor''} \<and>
   order (applyCommands createEmptyScene
      [UpdateObject ''constructor'' \<lparr> p_layer = None, p_status = None, p_transform = None,
         p_semanticTag = None, p_shapes = None \<rparr>]) = []"
  by (simp add: applyCommands_def updateObject_def createEmptyScene_def getObject_def
      objectPrototypeKeys_def patchObject_def orderKey_def computeOrderKey_def
      getLayerRank_def getBackdropRank_def isBackdrop_def inheritedMember_def)

text \<open>
  What does hold of every reachable scene: \<open>order\<close> has no duplicates, every id in it is
  stored, and every stored id that is not a member name of \<open>Object.prototype\<close> is in it.
\<close>

lemma reachable_order_objects:
  "distinct (order (applyCommands createEmptyScene cs)) \<and>
   set (order (applyCommands createEmptyScene cs)) \<subseteq> dom (objects (applyCommands createEmptyScene cs)) \<and>
   dom (objects (applyCommands createEmptyScene cs)) - set objectPrototypeKeys
     \<subseteq> set (order (applyCommands createEmptyScene cs))"
  using sceneInvD(1,2) [OF reachable_inv [of cs]] sceneInv_stray(2) [OF reachable_inv [of cs]]
  by blast

subsection \<open>Determinism, composition and batches\<close>

text \<open>
  Claim C3. Applying a command list is a function of the scene and the list alone;
  applying \<open>C1\<close> and then \<open>C2\<close> is applying \<open>C1 @ C2\<close>; and a batch command is the
  sequential application of its inner commands.
\<close>

theorem applyCommands_deterministic_compositional:
  "applyCommands S C = applyCommands S C \<and>
   applyCommands (applyCommands S C1) C2 = applyCommands S (C1 @ C2) \<and>
   applyCommand S (Batch cs) = applyCommands S cs"
  by (simp add: applyCommands_def)

subsection \<open>Committing a preview\<close>

text \<open>
  Claim C5. The claim says that committing an id absent from the scene returns the scene
  unchanged. The empty scene stores nothing under \<open>"constructor"\<close>, yet committing that
  id stores a new object whose only property is the status \<open>committed\<close>: the read
  \<open>scene.objects["constructor"]\<close> finds the inherited member, whose status is not
  \<open>committed\<close>.
\<close>

theorem commit_inherited_id_changes_scene:
  "objects createEmptyScene ''constructor'' = None \<and>
   applyCommand createEmptyScene (CommitPreviewObject ''constructor'') =
     createEmptyScene \<lparr> objects := [''constructor'' \<mapsto>
        \<lparr> o_id = None, o_status = Some ''committed'', o_layer = None, o_transform = None,
          o_semanticTag = None, o_shapes = None \<rparr>] \<rparr> \<and>
   applyCommand createEmptyScene (CommitPreviewObject ''constructor'') \<noteq> createEmptyScene"
proof -
  have eq: "applyCommand createEmptyScene (CommitPreviewObject ''constructor'') =
     createEmptyScene \<lparr> objects := [''constructor'' \<mapsto>
        \<lparr> o_id = None, o_status = Some ''committed'', o_layer = None, o_transform = None,
          o_semanticTag = None, o_shapes = None \<rparr>] \<rparr>"
    by (simp add: commitObject_def createEmptyScene_def getObject_def objectPrototypeKeys_def
        inheritedMember_def)
  have "objects (applyCommand createEmptyScene (CommitPreviewObject ''constructor''))
          ''constructor'' \<noteq> objects createEmptyScene ''constructor''"
    unfolding eq by (simp add: createEmptyScene_def)
  then have "applyCommand createEmptyScene (CommitPreviewObject ''constructor'') \<noteq> createEmptyScene"
    by auto
  with eq show ?thesis by (simp add: createEmptyScene_def)
qed

text \<open>
  The rest of the claim holds: an id that reads as undefined, or a stored object that is
  already committed, leaves the scene as it is; a stored preview object only has its
  status replaced; a second commit changes nothing.
\<close>

lemma commit_preview_object_cases:
  "(getObject S i = None \<longrightarrow> applyCommand S (CommitPreviewObject i) = S) \<and>
   (objects S i = Some obj \<and> o_status obj = Some ''committed'' \<longrightarrow>
      applyCommand S (CommitPreviewObject i) = S) \<and>
   (objects S i = Some obj \<and> o_status obj = Some ''preview'' \<longrightarrow>
      applyCommand S (CommitPreviewObject i) =
        S\<lparr> objects := (objects S)(i \<mapsto> obj\<lparr> o_status := Some ''committed'' \<rparr>) \<rparr>)"
  by (simp add: commitObject_def getObject_def)

lemma commit_absent_plain_id:
  "objects S i = None \<Longrightarrow> i \<notin> set objectPrototypeKeys \<Longrightarrow>
   applyCommand S (CommitPreviewObject i) = S"
  by (simp add: commitObject_def getObject_def)

lemma commit_twice:
  "applyCommand (applyCommand S (CommitPreviewObject i)) (CommitPreviewObject i) =
   applyCommand S (CommitPreviewObject i)"
  by (auto simp: commitObject_def getObject_def split: option.splits)

subsection \<open>Commands without effect\<close>

lemma applyCommands_filter_inert: "applyCommands S (filter (\<lambda>c. \<not> isInert c) cs) = applyCommands S cs"
  unfolding applyCommands_def
  by (induction cs arbitrary: S) (auto simp: isInert_def split: command.splits)

text \<open>
  Claim C10. \<open>set_background_gradient\<close>, \<open>set_ground_fill\<close> and \<open>set_path\<close> are
  variants of the command grammar, and the validator accepts a command of each kind; the
  reducer returns the scene it was given for each of them, and dropping them from a
  command list does not change the list's result.
\<close>

lemma inert_commands_validate:
  "DrawingCommandSchema gradientCommand" "DrawingCommandSchema groundFillCommand"
  "DrawingCommandSchema pathCommand"
  by code_simp+

theorem inert_commands_identity:
  "DrawingCommandSchema gradientCommand \<and> DrawingCommandSchema groundFillCommand \<and>
   DrawingCommandSchema pathCommand \<and>
   applyCommand S (SetBackgroundGradient g) = S \<and>
   applyCommand S (SetGroundFill f) = S \<and>
   applyCommand S (SetPath i bezierPoints widthNear widthFar) = S \<and>
   applyCommands S (filter (\<lambda>c. \<not> isInert c) cs) = applyCommands S cs"
  by (simp add: applyCommands_filter_inert inert_commands_validate)

subsection \<open>Clamping\<close>



section \<open>Properties of band normalization\<close>

subsection \<open>Rounding to a double\<close>

lemma binaryExponent_bounds:
  "0 < x \<Longrightarrow> 2 powi binaryExponent x \<le> x \<and> x < 2 powi (binaryExponent x + 1)"
proof (induction x rule: binaryExponent.induct)
  case (1 x)
  show ?case
  proof (cases "2 \<le> x")
    case True
    with 1 have ih: "2 powi binaryExponent (x / 2) \<le> x / 2"
      "x / 2 < 2 powi (binaryExponent (x / 2) + 1)" by simp_all
    have e: "binaryExponent x = binaryExponent (x / 2) + 1"
      using True 1(3) by (subst binaryExponent.simps) simp
    have p: "(2::real) powi (k + 1) = 2 powi k * 2" for k
      by (simp add: power_int_add)
    from ih show ?thesis unfolding e p by simp
  next
    case False
    show ?thesis
    proof (cases "x < 1")
      case True
      with 1 False have ih: "2 powi binaryExponent (x * 2) \<le> x * 2"
        "x * 2 < 2 powi (binaryExponent (x * 2) + 1)" by simp_all
      have e: "binaryExponent x = binaryExponent (x * 2) - 1"
        using True False 1(3) by (subst binaryExponent.simps) simp
      have p: "(2::real) powi (k + 1) = 2 powi k * 2" for k
        by (simp add: power_int_add)
      have q: "(2::real) powi k = 2 powi (k - 1) * 2" for k
        using p [of "k - 1"] by simp
      from ih show ?thesis unfolding e using p [of "binaryExponent (x * 2)"] q [of "binaryExponent (x * 2)"]
        by simp
    next
      case n: False
      have e: "binaryExponent x = 0"
        using n False 1(3) by (subst binaryExponent.simps) simp
      from n False show ?thesis unfolding e by simp
    qed
  qed
qed

lemma two_powi_less_iff: "(2::real) powi a < 2 powi b \<longleftrightarrow> a < b"
proof
  assume l: "(2::real) powi a < 2 powi b"
  show "a < b"
  proof (rule ccontr)
    assume "\<not> a < b"
    then have "b \<le> a" by simp
    then have "(2::real) powi b \<le> 2 powi a" by (rule power_int_increasing) simp
    with l show False by simp
  qed
next
  assume "a < b"
  then show "(2::real) powi a < 2 powi b" by (rule power_int_strict_increasing) simp
qed

lemma two_powi_le_iff: "(2::real) powi a \<le> 2 powi b \<longleftrightarrow> a \<le> b"
  using two_powi_less_iff [of b a] by (simp only: not_less [symmetric])

lemma binaryExponent_unique:
  assumes "0 < x" and "2 powi e \<le> x" and "x < 2 powi (e + 1)"
  shows "binaryExponent x = e"
proof -
  from binaryExponent_bounds [OF assms(1)]
  have lo: "2 powi binaryExponent x \<le> x" and hi: "x < 2 powi (binaryExponent x + 1)"
    by simp_all
  from lo assms(3) have "(2::real) powi binaryExponent x < 2 powi (e + 1)" by linarith
  then have a: "binaryExponent x < e + 1" by (simp only: two_powi_less_iff)
  from assms(2) hi have "(2::real) powi e < 2 powi (binaryExponent x + 1)" by linarith
  then have b: "e < binaryExponent x + 1" by (simp only: two_powi_less_iff)
  from a b show ?thesis by linarith
qed

lemma roundHalfEven_of_int: "roundHalfEven (of_int z) = z"
  by (simp add: roundHalfEven_def)

lemma roundHalfEven_near:
  assumes "\<bar>m - of_int z\<bar> < 1 / 2"
  shows "roundHalfEven m = z"
proof (cases "of_int z \<le> m")
  case True
  with assms have "\<lfloor>m\<rfloor> = z" by (intro floor_unique) linarith+
  with True assms show ?thesis by (simp add: roundHalfEven_def)
next
  case False
  with assms have "of_int (z - 1) \<le> m" "m < of_int (z - 1) + 1" by simp_all
  then have f: "\<lfloor>m\<rfloor> = z - 1" by (rule floor_unique)
  with False assms have "1 / 2 < m - of_int \<lfloor>m\<rfloor>" by simp
  with f show ?thesis by (simp add: roundHalfEven_def)
qed

lemma roundHalfEven_tie:
  assumes "m = of_int z + 1 / 2" and "even z"
  shows "roundHalfEven m = z"
proof -
  from assms(1) have "\<lfloor>m\<rfloor> = z" by (intro floor_unique) linarith+
  with assms show ?thesis by (simp add: roundHalfEven_def)
qed

lemma roundHalfEven_error: "\<bar>of_int (roundHalfEven m) - m\<bar> \<le> 1 / 2"
proof -
  have "of_int \<lfloor>m\<rfloor> \<le> m" "m < of_int \<lfloor>m\<rfloor> + 1" by linarith+
  then show ?thesis by (simp add: roundHalfEven_def Let_def)
qed

lemma roundHalfEven_nonneg: "0 \<le> m \<Longrightarrow> 0 \<le> roundHalfEven m"
  by (simp add: roundHalfEven_def Let_def)

lemma two_powi_pos: "0 < (2::real) powi k"
  by simp

lemma toDouble_error:
  assumes "x \<noteq> 0"
  shows "\<bar>toDouble x - x\<bar> \<le> 2 powi (max (binaryExponent \<bar>x\<bar>) (- 1022) - 52) / 2"
proof -
  define u :: real where "u = 2 powi (max (binaryExponent \<bar>x\<bar>) (- 1022) - 52)"
  have u: "0 < u" unfolding u_def by simp
  have t: "toDouble x = of_int (roundHalfEven (x / u)) * u"
    using assms by (simp add: toDouble_def Let_def u_def)
  have "toDouble x - x = (of_int (roundHalfEven (x / u)) - x / u) * u"
    using u unfolding t by (simp add: algebra_simps)
  then have "\<bar>toDouble x - x\<bar> = \<bar>of_int (roundHalfEven (x / u)) - x / u\<bar> * u"
    using u by (simp add: abs_mult)
  also have "\<dots> \<le> (1 / 2) * u"
    using roundHalfEven_error [of "x / u"] u by (intro mult_right_mono) simp_all
  finally show ?thesis unfolding u_def by simp
qed

lemma toDouble_nonneg: "0 \<le> x \<Longrightarrow> 0 \<le> toDouble x"
  by (simp add: toDouble_def Let_def roundHalfEven_nonneg)

lemma toDouble_of_int:
  assumes "0 \<le> k" and "k \<le> 2 ^ 53"
  shows "toDouble (of_int k) = of_int k"
proof (cases "k = 0")
  case True
  then show ?thesis by (simp add: toDouble_def)
next
  case False
  with assms(1) have pos: "0 < (of_int k :: real)" and one: "1 \<le> (of_int k :: real)"
    by simp_all
  define e where "e = binaryExponent (of_int k)"
  from binaryExponent_bounds [OF pos]
  have lo: "2 powi e \<le> (of_int k :: real)" and hi: "(of_int k :: real) < 2 powi (e + 1)"
    unfolding e_def by simp_all
  from one hi have "(2::real) powi 0 < 2 powi (e + 1)" by simp
  then have "0 < e + 1" by (simp only: two_powi_less_iff)
  then have e0: "0 \<le> e" by simp
  have "(of_int k :: real) \<le> 2 ^ 53" using assms(2) by (metis of_int_le_iff of_int_numeral of_int_power)
  with lo have "(2::real) powi e \<le> 2 powi 53" by simp
  then have e53: "e \<le> 53" by (simp only: two_powi_le_iff)
  have ab: "\<bar>of_int k :: real\<bar> = of_int k" using pos by simp
  have mx: "max e (- 1022) = e" using e0 by simp
  have t: "toDouble (of_int k) =
      of_int (roundHalfEven (of_int k / 2 powi (e - 52))) * 2 powi (e - 52)"
    using pos by (simp add: toDouble_def Let_def ab e_def [symmetric] mx)
  show ?thesis
  proof (cases "e \<le> 52")
    case True
    have "(1::real) / 2 powi (e - 52) = 2 powi (52 - e)"
      by (simp add: power_int_diff)
    also have "\<dots> = 2 ^ nat (52 - e)" using True by (simp add: power_int_def)
    finally have inv: "(1::real) / 2 powi (e - 52) = 2 ^ nat (52 - e)" .
    have "(of_int k :: real) / 2 powi (e - 52) = of_int k * (1 / 2 powi (e - 52))" by simp
    also have "\<dots> = of_int (k * 2 ^ nat (52 - e))" unfolding inv by simp
    finally have q: "(of_int k :: real) / 2 powi (e - 52) = of_int (k * 2 ^ nat (52 - e))" .
    have "toDouble (of_int k) = (of_int k / 2 powi (e - 52)) * 2 powi (e - 52)"
      unfolding t by (simp only: q roundHalfEven_of_int)
    then show ?thesis by simp
  next
    case False
    with e53 have e: "e = 53" by simp
    from lo have "(2::real) ^ 53 \<le> of_int k" unfolding e by simp
    then have "(2::int) ^ 53 \<le> k" by (metis of_int_le_iff of_int_numeral of_int_power)
    with assms(2) have k: "k = 2 ^ 53" by simp
    have "(of_int k :: real) / 2 powi (e - 52) = of_int (2 ^ 52)" unfolding e k by simp
    then have "toDouble (of_int k) = of_int (2 ^ 52) * 2 powi (e - 52)"
      unfolding t by (simp only: roundHalfEven_of_int)
    then show ?thesis unfolding e k by simp
  qed
qed

lemma toDouble_numeral:
  "numeral k \<le> (2::int) ^ 53 \<Longrightarrow> toDouble (numeral k) = numeral k"
  using toDouble_of_int [of "numeral k"] by simp

lemma toDouble_zero: "toDouble 0 = 0"
  by (simp add: toDouble_def)

lemma toDouble_one: "toDouble 1 = 1"
  using toDouble_of_int [of 1] by simp

lemma floor_toDouble_div:
  assumes T0: "0 < T" and T53: "T < 2 ^ 53" and n0: "0 < n"
  shows "\<lfloor>toDouble (of_int T / of_nat n)\<rfloor> = T div int n"
proof -
  define x :: real where "x = of_int T / of_nat n"
  define q where "q = T div int n"
  define r where "r = T mod int n"
  have npos: "0 < (of_nat n :: real)" using n0 by simp
  have T: "T = q * int n + r" unfolding q_def r_def by simp
  have r0: "0 \<le> r" and rn: "r < int n" unfolding r_def using n0 by simp_all
  have q0: "0 \<le> q" unfolding q_def using T0 n0 by (simp add: pos_imp_zdiv_nonneg_iff)
  have Treal: "(of_int T :: real) = of_int q * of_nat n + of_int r"
  proof -
    from T have "(of_int T :: real) = of_int (q * int n + r)" by (rule arg_cong)
    then show ?thesis by (simp only: of_int_add of_int_mult of_int_of_nat_eq)
  qed
  have xq: "x = of_int q + of_int r / of_nat n"
    unfolding x_def Treal using npos by (simp add: field_simps)
  have xpos: "0 < x" unfolding x_def using T0 npos by simp
  have T53r: "(of_int T :: real) < 2 ^ 53"
    using T53 by (metis of_int_less_iff of_int_numeral of_int_power)
  show ?thesis unfolding x_def [symmetric] q_def [symmetric]
  proof (cases "r = 0")
    case True
    then have "x = of_int q" using xq by simp
    moreover have "q \<le> 2 ^ 53"
    proof -
      have "q * 1 \<le> q * int n" using q0 n0 by (intro mult_left_mono) simp_all
      with T True T53 show ?thesis by simp
    qed
    ultimately show "\<lfloor>toDouble x\<rfloor> = q" using toDouble_of_int [OF q0] by simp
  next
    case False
    with r0 have r1: "1 \<le> r" by simp
    have rn1: "r \<le> int n - 1" using rn by simp
    have lo: "of_int q + 1 / of_nat n \<le> x"
    proof -
      have "(1::real) \<le> of_int r" using r1 by simp
      then have "(1::real) / of_nat n \<le> of_int r / of_nat n"
        using npos by (simp add: divide_right_mono)
      then show ?thesis unfolding xq by simp
    qed
    have hi: "x \<le> of_int q + 1 - 1 / of_nat n"
    proof -
      have "(of_int r :: real) \<le> of_nat n - 1" using rn1 by (metis of_int_le_iff of_int_diff of_int_of_nat_eq of_int_1)
      then have "(of_int r :: real) / of_nat n \<le> (of_nat n - 1) / of_nat n"
        using npos by (simp add: divide_right_mono)
      also have "\<dots> = 1 - 1 / of_nat n" using npos by (simp add: field_simps)
      finally show ?thesis unfolding xq by simp
    qed
    define e where "e = binaryExponent x"
    from binaryExponent_bounds [OF xpos]
    have elo: "2 powi e \<le> x" and ehi: "x < 2 powi (e + 1)" unfolding e_def by simp_all
    have ab: "\<bar>x\<bar> = x" using xpos by simp
    have err: "\<bar>toDouble x - x\<bar> \<le> 2 powi (max e (- 1022) - 52) / 2"
      using toDouble_error [of x] xpos unfolding ab e_def by simp
    have half: "(2::real) powi (k - 52) / 2 = 2 powi k / 2 ^ 53" for k
      by (simp add: power_int_diff)
    show "\<lfloor>toDouble x\<rfloor> = q"
    proof (cases "1 \<le> x")
      case True
      with ehi have "(2::real) powi 0 < 2 powi (e + 1)" by simp
      then have "0 < e + 1" by (simp only: two_powi_less_iff)
      then have mx: "max e (- 1022) = e" by simp
      have "\<bar>toDouble x - x\<bar> \<le> 2 powi e / 2 ^ 53" using err unfolding mx half .
      also have "\<dots> \<le> x / 2 ^ 53" using elo by (simp add: divide_right_mono)
      also have "\<dots> < 1 / of_nat n"
      proof -
        have "x / 2 ^ 53 = (of_int T / 2 ^ 53) / of_nat n" unfolding x_def by simp
        also have "\<dots> < 1 / of_nat n"
          using T53r npos by (intro divide_strict_right_mono) simp_all
        finally show ?thesis .
      qed
      finally have "\<bar>toDouble x - x\<bar> < 1 / of_nat n" .
      with lo hi have "of_int q \<le> toDouble x" "toDouble x < of_int q + 1" by linarith+
      then show ?thesis by (rule floor_unique)
    next
      case False
      then have x1: "x < 1" by simp
      have "q = 0"
      proof (rule ccontr)
        assume "q \<noteq> 0"
        with q0 have "(1::real) \<le> of_int q" by simp
        moreover have "0 \<le> (of_int r :: real) / of_nat n" using r0 npos by simp
        ultimately show False using xq x1 by linarith
      qed
      from elo x1 have "(2::real) powi e < 2 powi 0" by simp
      then have "e < 0" by (simp only: two_powi_less_iff)
      then have "max e (- 1022) \<le> - 1" by simp
      then have "(2::real) powi (max e (- 1022)) \<le> 2 powi (- 1)" by (simp only: two_powi_le_iff)
      then have "(2::real) powi (max e (- 1022)) / 2 ^ 53 \<le> 2 powi (- 1) / 2 ^ 53"
        by (simp add: divide_right_mono)
      with err have e54: "\<bar>toDouble x - x\<bar> \<le> 1 / 2 ^ 54" unfolding half by simp
      have nn: "0 \<le> toDouble x" using xpos by (simp add: toDouble_nonneg)
      have up: "toDouble x - x \<le> 1 / 2 ^ 54" using e54 by linarith
      have "toDouble x < 1"
      proof (cases "x < 1 / 2")
        case True
        have "(1::real) / 2 ^ 54 < 1 / 2" by simp
        with up True show ?thesis by linarith
      next
        case False
        then have "of_nat n \<le> 2 * (of_int T :: real)" unfolding x_def using npos by (simp add: field_simps)
        with T53r have "(of_nat n :: real) < 2 ^ 54" by simp
        then have lt: "1 / (2::real) ^ 54 < 1 / of_nat n" using npos by (simp add: field_simps)
        have hi0: "x \<le> 1 - 1 / of_nat n" using hi \<open>q = 0\<close> by simp
        from up lt hi0 show ?thesis by linarith
      qed
      with nn \<open>q = 0\<close> show ?thesis by (simp add: floor_unique)
    qed
  qed
qed

subsection \<open>The layout in doubles and in integers\<close>

text \<open>
  While every number involved stays within \<open>2 ^ 53\<close>, the heights and the running
  \<open>y\<close> that the code computes in doubles are the exact integers.
\<close>

lemma layoutBands_exact:
  assumes "0 \<le> b" and "0 \<le> y" and "k \<le> length rs"
    and "y + b * int (length rs) + int k \<le> 2 ^ 53"
  shows "layoutBands b (of_nat k) (of_int y) rs = exactBands b k y rs"
  using assms
proof (induction rs arbitrary: k y)
  case Nil
  then show ?case by simp
next
  case (Cons r rs)
  define ex :: int where "ex = (if 0 < k then 1 else 0)"
  have ex01: "0 \<le> ex" "ex \<le> int k" unfolding ex_def by simp_all
  have bl: "b \<le> b * int (length (r # rs))"
  proof -
    have "b * 1 \<le> b * int (length (r # rs))" using Cons.prems(1) by (intro mult_left_mono) simp_all
    then show ?thesis by simp
  qed
  have hb: "0 \<le> b + ex" "b + ex \<le> 2 ^ 53"
    using Cons.prems(1,2,4) ex01 bl by linarith+
  have h: "toDouble (of_int b + (if 0 < (of_nat k :: real) then 1 else 0)) = of_int (b + ex)"
    using toDouble_of_int [OF hb] unfolding ex_def by (cases "0 < k") simp_all
  have yb: "0 \<le> y + (b + ex)" "y + (b + ex) \<le> 2 ^ 53"
    using Cons.prems(1,2,4) ex01 bl by linarith+
  have y': "toDouble (of_int y + of_int (b + ex)) = of_int (y + (b + ex))"
    using toDouble_of_int [OF yb] by simp
  have rem': "(if 0 < (of_nat k :: real) then toDouble (of_nat k - 1) else of_nat k)
      = of_nat (k - 1)"
  proof (cases k)
    case 0
    then show ?thesis by simp
  next
    case (Suc j)
    have "0 \<le> int j" "int j \<le> 2 ^ 53" using Cons.prems(1,2,4) Suc bl by linarith+
    from toDouble_of_int [OF this] Suc show ?thesis by simp
  qed
  have k': "k - 1 \<le> length rs" using Cons.prems(3) by simp
  have bound: "y + (b + ex) + b * int (length rs) + int (k - 1) \<le> 2 ^ 53"
  proof -
    have "int (k - 1) = int k - ex" unfolding ex_def by (cases k) simp_all
    moreover have "b * int (length (r # rs)) = b + b * int (length rs)"
      by (simp add: algebra_simps)
    ultimately show ?thesis using Cons.prems(4) by simp
  qed
  have ih: "layoutBands b (of_nat (k - 1)) (of_int (y + (b + ex))) rs
      = exactBands b (k - 1) (y + (b + ex)) rs"
    using Cons.IH [OF Cons.prems(1) yb(1) k' bound] .
  show ?case
    unfolding layoutBands.simps exactBands.simps Let_def h rem' y' ih
    by (simp add: ex_def)
qed

lemma exactBands_length: "length (exactBands b k y rs) = length rs"
  by (induction rs arbitrary: k y) (simp_all add: Let_def)

lemma exactBands_contiguous: "contiguousFrom (of_int y) (exactBands b k y rs)"
proof (induction rs arbitrary: k y)
  case Nil
  then show ?case by simp
next
  case (Cons r rs)
  from Cons [of "y + (b + (if 0 < k then 1 else 0))" "k - 1"]
  show ?case by (simp add: Let_def numOr0_def)
qed

lemma exactBands_sum:
  "sum_list (heights (exactBands b k y rs)) =
     of_int b * of_nat (length rs) + of_nat (min k (length rs))"
proof (induction rs arbitrary: k y)
  case Nil
  then show ?case by (simp add: heights_def)
next
  case (Cons r rs)
  show ?case
  proof (cases k)
    case 0
    with Cons [of 0] show ?thesis
      by (simp add: heights_def Let_def numOr0_def algebra_simps)
  next
    case (Suc j)
    with Cons [of j] show ?thesis
      by (simp add: heights_def Let_def numOr0_def algebra_simps)
  qed
qed

lemma exactBands_heights:
  assumes "s \<in> set (exactBands b k y rs)"
  shows "s_height s = Some (of_int b) \<or> s_height s = Some (of_int b + 1)"
  using assms by (induction rs arbitrary: k y) (auto simp: Let_def split: if_splits)

lemma exactBands_band:
  assumes "s \<in> set (exactBands b k y rs)" and "\<forall>q \<in> set rs. s_type q = ''rect''"
  shows "looksLikeFullWidthBandRect s \<longleftrightarrow> numOr0 (s_height s) > 0"
  using assms
  by (induction rs arbitrary: k y)
     (auto simp: Let_def looksLikeFullWidthBandRect_def numOr0_def split: if_splits)

lemma contiguousFrom_filter_positive:
  assumes "contiguousFrom y ss" and "\<forall>s \<in> set ss. numOr0 (s_height s) \<ge> 0"
  shows "contiguousFrom y (filter (\<lambda>s. numOr0 (s_height s) > 0) ss)"
  using assms
proof (induction ss arbitrary: y)
  case Nil
  then show ?case by simp
next
  case (Cons s ss)
  show ?case
  proof (cases "numOr0 (s_height s) > 0")
    case True
    with Cons show ?thesis by simp
  next
    case False
    with Cons.prems have "numOr0 (s_height s) = 0" by simp
    with Cons show ?thesis by simp
  qed
qed

lemma sum_heights_filter_positive:
  assumes "\<forall>s \<in> set ss. numOr0 (s_height s) \<ge> 0"
  shows "sum_list (heights (filter (\<lambda>s. numOr0 (s_height s) > 0) ss)) = sum_list (heights ss)"
  using assms by (induction ss) (auto simp: heights_def)

lemma contiguousFrom_nth:
  assumes "contiguousFrom y ss" and "i < length ss"
  shows "s_y (ss ! i) = Some (y + sum_list (take i (heights ss)))"
  using assms
proof (induction ss arbitrary: y i)
  case Nil
  then show ?case by simp
next
  case (Cons s ss)
  show ?case
  proof (cases i)
    case 0
    with Cons.prems show ?thesis by simp
  next
    case (Suc j)
    with Cons.prems Cons.IH [of "y + numOr0 (s_height s)" j] show ?thesis
      by (simp add: heights_def)
  qed
qed

lemma getBandRects_rect: "q \<in> set (getBandRects shapes) \<Longrightarrow> s_type q = ''rect''"
  by (auto simp: getBandRects_def looksLikeFullWidthBandRect_def split: if_splits)

lemma filter_band_append_others:
  "filter looksLikeFullWidthBandRect (xs @ filter (\<lambda>s. \<not> looksLikeFullWidthBandRect s) shapes)
     = filter looksLikeFullWidthBandRect xs"
  by (induction shapes) simp_all

lemma tiles_exactBands:
  assumes "0 \<le> b" and "k \<le> length rs"
  shows "tiles (b * int (length rs) + int k) (exactBands b k 0 rs)"
    and "tiles (b * int (length rs) + int k)
           (filter (\<lambda>s. numOr0 (s_height s) > 0) (exactBands b k 0 rs))"
proof -
  let ?L = "exactBands b k 0 rs"
  let ?F = "filter (\<lambda>s. numOr0 (s_height s) > 0) ?L"
  have nonneg: "\<forall>s \<in> set ?L. numOr0 (s_height s) \<ge> 0"
    using exactBands_heights [of _ b k 0 rs] assms(1) by (fastforce simp: numOr0_def)
  have ints: "\<forall>s \<in> set ?L. numOr0 (s_height s) \<in> \<int>"
    using exactBands_heights [of _ b k 0 rs] by (fastforce simp: numOr0_def)
  have sum: "sum_list (heights ?L) = of_int (b * int (length rs) + int k)"
    using assms(2) by (simp add: exactBands_sum min_def)
  have c: "contiguousFrom 0 ?L" using exactBands_contiguous [of 0 b k rs] by simp
  show "tiles (b * int (length rs) + int k) ?L"
    unfolding tiles_def using sum ints contiguousFrom_nth [OF c]
    by (auto simp: heights_def)
  have cF: "contiguousFrom 0 ?F" using c nonneg by (rule contiguousFrom_filter_positive)
  have sumF: "sum_list (heights ?F) = of_int (b * int (length rs) + int k)"
    using sum sum_heights_filter_positive [OF nonneg] by simp
  show "tiles (b * int (length rs) + int k) ?F"
    unfolding tiles_def using sumF ints contiguousFrom_nth [OF cF]
    by (auto simp: heights_def)
qed

lemma normalizeBandStack_exact:
  assumes n3: "3 \<le> length (getBandRects shapes)" and T0: "0 < T" and T53: "T < 2 ^ 53"
  shows "normalizeBandStack shapes (of_int T) =
     Some (exactBands (T div int (length (getBandRects shapes)))
             (nat (T mod int (length (getBandRects shapes)))) 0 (getBandRects shapes)
           @ filter (\<lambda>s. \<not> looksLikeFullWidthBandRect s) shapes)"
proof -
  define rects where "rects = getBandRects shapes"
  define n where "n = length rects"
  define b where "b = T div int n"
  define k where "k = nat (T mod int n)"
  define others where "others = filter (\<lambda>s. \<not> looksLikeFullWidthBandRect s) shapes"
  from n3 have n3': "\<not> n < 3" and n0: "0 < n" unfolding n_def rects_def by linarith+
  from n0 have npos: "0 < int n" by (simp only: of_nat_0_less_iff)
  have modnn: "0 \<le> T mod int n" and modlt: "T mod int n < int n"
    using npos by simp_all
  have kint: "int k = T mod int n" unfolding k_def using modnn by simp
  have Teq: "b * int n + int k = T" unfolding kint b_def by simp
  have b0: "0 \<le> b" unfolding b_def using T0 npos by (simp add: pos_imp_zdiv_nonneg_iff)
  have bn1: "0 \<le> b * int n" using b0 by simp
  have k0: "0 \<le> int k" by simp
  have bn2: "b * int n \<le> 2 ^ 53" using Teq k0 T53 by linarith
  have k53: "int k \<le> 2 ^ 53" using Teq bn1 T53 by linarith
  have kn: "k \<le> n" using modlt kint by linarith
  have base: "\<lfloor>toDouble (of_int T / of_nat n)\<rfloor> = b"
    unfolding b_def using T0 T53 n0 by (rule floor_toDouble_div)
  have prod: "toDouble (of_int b * of_nat n) = of_int (b * int n)"
    using toDouble_of_int [OF bn1 bn2] by simp
  have "(of_int T :: real) = of_int (b * int n + int k)" using Teq by (simp only:)
  then have diff: "(of_int T :: real) - of_int (b * int n) = of_int (int k)"
    by (simp only: of_int_add)
  have rem: "toDouble (of_int T - of_int (b * int n)) = of_nat k"
    unfolding diff using toDouble_of_int [OF k0 k53] by (simp only: of_int_of_nat_eq)
  have bound: "0 + b * int n + int k \<le> 2 ^ 53" using Teq T53 by linarith
  have lay: "layoutBands b (of_nat k) 0 rects = exactBands b k 0 rects"
    using layoutBands_exact [OF b0 order_refl, of k rects] kn bound unfolding n_def by simp
  have "normalizeBandStack shapes (of_int T) =
      (if n < 3 then None
       else Some (layoutBands \<lfloor>toDouble (of_int T / of_nat n)\<rfloor>
             (toDouble (of_int T - toDouble (of_int \<lfloor>toDouble (of_int T / of_nat n)\<rfloor> * of_nat n)))
             0 rects @ others))"
    unfolding normalizeBandStack_def Let_def n_def rects_def others_def by (rule refl)
  also have "\<dots> = Some (exactBands b k 0 rects @ others)"
    unfolding base prod rem lay using n3' by simp
  finally show ?thesis unfolding others_def k_def b_def n_def rects_def .
qed

lemma exampleStack_bands:
  "getBandRects exampleStack = [band 0 7 ''#225'', band 10 5 ''#113'', band 20 50 ''#337'']"
  "filter (\<lambda>s. \<not> looksLikeFullWidthBandRect s) exampleStack = []"
  by (simp_all add: getBandRects_def looksLikeFullWidthBandRect_def band_def numOr0_def
      exampleStack_def)

lemma exampleStack_normalized:
  "normalizeBandStack exampleStack 100 =
     Some [band 0 34 ''#225'', band 34 33 ''#113'', band 67 33 ''#337'']"
proof -
  have "3 \<le> length (getBandRects exampleStack)" by (simp add: exampleStack_bands)
  from normalizeBandStack_exact [OF this, of 100]
  show ?thesis by (simp add: exampleStack_bands band_def)
qed

lemma toDouble_third: "toDouble (9007199254740994 / 3) = 6004799503160663 / 2"
proof -
  have e: "binaryExponent (9007199254740994 / 3) = 51"
    by (rule binaryExponent_unique) simp_all
  have r: "roundHalfEven (18014398509481988 / 3) = 6004799503160663"
    by (rule roundHalfEven_near) simp
  show ?thesis by (simp add: toDouble_def e power_int_minus r)
qed

lemma toDouble_product: "toDouble 9007199254740993 = 9007199254740992"
proof -
  have e: "binaryExponent 9007199254740993 = 53"
    by (rule binaryExponent_unique) simp_all
  have r: "roundHalfEven (9007199254740993 / 2) = 4503599627370496"
    by (rule roundHalfEven_tie) simp_all
  show ?thesis by (simp add: toDouble_def e r)
qed

lemma exampleStack_beyond:
  "normalizeBandStack exampleStack 9007199254740994 =
     Some [band 0 3002399751580332 ''#225'', band 3002399751580332 3002399751580332 ''#113'',
           band 6004799503160664 3002399751580331 ''#337'']"
  by (simp add: normalizeBandStack_def exampleStack_bands toDouble_third toDouble_product
      toDouble_numeral toDouble_zero toDouble_one band_def)

subsection \<open>Band tiling\<close>

text \<open>
  Claim C6, as stated, fails: the claim takes every positive integer target height. The
  code computes \<open>Math.floor(targetHeight / n)\<close> and \<open>targetHeight - base * n\<close> in
  doubles. For the target height \<open>9007199254740994\<close>, which is \<open>2 ^ 53 + 2\<close> and a
  double, and three band rects, \<open>base\<close> is \<open>3002399751580331\<close>, the product
  \<open>base * 3\<close> is \<open>2 ^ 53 + 1\<close> and rounds to \<open>2 ^ 53\<close>, so \<open>rem\<close> is 2 where the
  exact remainder is 1: the heights are \<open>base + 1\<close>, \<open>base + 1\<close> and \<open>base\<close>, and
  they add up to the target height plus one.
\<close>

theorem band_tiling_fails_beyond_2_53:
  "3 \<le> length (getBandRects exampleStack) \<and> (0::int) < 9007199254740994 \<and>
   normalizeBandStack exampleStack (of_int 9007199254740994) =
     Some [band 0 3002399751580332 ''#225'', band 3002399751580332 3002399751580332 ''#113'',
           band 6004799503160664 3002399751580331 ''#337''] \<and>
   sum_list (heights (filter looksLikeFullWidthBandRect
     [band 0 3002399751580332 ''#225'', band 3002399751580332 3002399751580332 ''#113'',
      band 6004799503160664 3002399751580331 ''#337''])) = 9007199254740995 \<and>
   \<not> tiles 9007199254740994 (filter looksLikeFullWidthBandRect
     [band 0 3002399751580332 ''#225'', band 3002399751580332 3002399751580332 ''#113'',
      band 6004799503160664 3002399751580331 ''#337''])"
  by (simp add: exampleStack_beyond exampleStack_bands tiles_def heights_def
      looksLikeFullWidthBandRect_def band_def numOr0_def)

text \<open>
  Claim C6, amended. For a shape list with at least three full-width band rects and a
  positive integer target height \<open>T\<close> below \<open>2 ^ 53\<close>, \<open>normalizeBandStack\<close>
  returns a list. Its band rects (the shapes of the result that
  \<open>looksLikeFullWidthBandRect\<close> accepts) have integer heights that add up to \<open>T\<close>,
  and each one's \<open>y\<close> is the sum of the heights before it, starting at 0. The same holds
  of the rewritten rects as a whole, the first \<open>n\<close> shapes of the result, which include
  rects of height 0 when \<open>T < n\<close>.
\<close>

theorem band_tiling:
  assumes "3 \<le> length (getBandRects shapes)" and "0 < T" and "T < 2 ^ 53"
  shows "\<exists>out. normalizeBandStack shapes (of_int T) = Some out \<and>
           tiles T (filter looksLikeFullWidthBandRect out) \<and>
           tiles T (take (length (getBandRects shapes)) out)"
proof -
  let ?rects = "getBandRects shapes"
  let ?n = "length ?rects"
  let ?b = "T div int ?n"
  let ?k = "nat (T mod int ?n)"
  let ?L = "exactBands ?b ?k 0 ?rects"
  let ?others = "filter (\<lambda>s. \<not> looksLikeFullWidthBandRect s) shapes"
  from assms(1) have "0 < ?n" by linarith
  then have npos: "0 < int ?n" by (simp only: of_nat_0_less_iff)
  have modnn: "0 \<le> T mod int ?n" and modlt: "T mod int ?n < int ?n"
    using npos by simp_all
  have out: "normalizeBandStack shapes (of_int T) = Some (?L @ ?others)"
    using assms by (rule normalizeBandStack_exact)
  have b0: "0 \<le> ?b" using assms(2) npos by (simp add: pos_imp_zdiv_nonneg_iff)
  have kn: "?k \<le> ?n" using modlt by simp
  have T: "?b * int ?n + int ?k = T" using modnn by simp
  have t1: "tiles T ?L" using tiles_exactBands(1) [OF b0 kn] T by simp
  have t2: "tiles T (filter (\<lambda>s. numOr0 (s_height s) > 0) ?L)"
    using tiles_exactBands(2) [OF b0 kn] T by simp
  have "filter looksLikeFullWidthBandRect ?L = filter (\<lambda>s. numOr0 (s_height s) > 0) ?L"
    by (rule filter_cong [OF refl]) (simp add: exactBands_band getBandRects_rect)
  then have f: "filter looksLikeFullWidthBandRect (?L @ ?others)
      = filter (\<lambda>s. numOr0 (s_height s) > 0) ?L"
    by (simp only: filter_band_append_others)
  have tk: "take ?n (?L @ ?others) = ?L" by (simp add: exactBands_length)
  from out t1 t2 f tk show ?thesis by simp
qed

theorem band_tiling_witness:
  "3 \<le> length (getBandRects exampleStack) \<and> (0::int) < 100 \<and> (100::int) < 2 ^ 53 \<and>
   normalizeBandStack exampleStack 100 =
     Some [band 0 34 ''#225'', band 34 33 ''#113'', band 67 33 ''#337''] \<and>
   tiles 100 [band 0 34 ''#225'', band 34 33 ''#113'', band 67 33 ''#337'']"
proof -
  have h1: "3 \<le> length (getBandRects exampleStack)" by (simp add: exampleStack_bands)
  have h2: "(0::int) < 100" by simp
  have h3: "(100::int) < 2 ^ 53" by simp
  have len: "length (getBandRects exampleStack) = 3" by (simp add: exampleStack_bands)
  from band_tiling [OF h1 h2 h3] obtain out where
    o: "normalizeBandStack exampleStack (of_int 100) = Some out"
    and t: "tiles 100 (take (length (getBandRects exampleStack)) out)"
    by blast
  from o exampleStack_normalized
  have out: "out = [band 0 34 ''#225'', band 34 33 ''#113'', band 67 33 ''#337'']" by simp
  from t have "tiles 100 [band 0 34 ''#225'', band 34 33 ''#113'', band 67 33 ''#337'']"
    unfolding out len by simp
  with exampleStack_normalized h1 show ?thesis by simp
qed

section \<open>Properties of the safety guard\<close>

lemma leafCommands_append: "leafCommands (xs @ ys) = leafCommands xs @ leafCommands ys"
  by (induction xs) simp_all

lemma withoutTag_None: "p_semanticTag p = None \<Longrightarrow> withoutTag u p = p"
  by (cases p) (simp add: withoutTag_def)

lemma strip_leaves:
  "leafCommands (cmds (stripDestructiveCommands cs u)) =
     map (softened u) (filter (\<lambda>c. \<not> dropped u c) (leafCommands cs))"
  "leafCommands (cmds (stripCommand c u)) =
     map (softened u) (filter (\<lambda>c. \<not> dropped u c) (leavesOf c))"
proof (induction cs u and c u rule: stripDestructiveCommands_stripCommand.induct)
qed (auto simp: Let_def dropped_def softened_def leafCommands_append withoutTag_None
      withoutTag_def)

lemma strip_removed:
  "removed (stripDestructiveCommands cs u) = length (filter (dropped u) (leafCommands cs))"
  "removed (stripCommand c u) = length (filter (dropped u) (leavesOf c))"
proof (induction cs u and c u rule: stripDestructiveCommands_stripCommand.induct)
qed (auto simp: Let_def dropped_def)

lemma undo_is_cancel_vocabulary: "userExplicitlyWantsCancel ''undo that''"
  by code_simp

lemma undo_is_not_delete_vocabulary: "\<not> userExplicitlyWantsDelete ''undo that''"
  by code_simp

lemma undo_is_destructive_vocabulary: "spec_containsDestructiveVocabulary ''undo that''"
  by code_simp

lemma add_a_tree_no_vocabulary:
  "\<not> userExplicitlyWantsDelete ''add a tree''" "\<not> userExplicitlyWantsCancel ''add a tree''"
  by code_simp+

text \<open>
  Claim C4, as stated, fails: the claim takes one vocabulary for both kinds of command.
  The utterance "undo that" contains \<open>undo\<close>, one of the words the claim lists, and the
  guard still removes a \<open>delete_object\<close> command, because \<open>undo\<close> is in the cancel
  vocabulary only.
\<close>

theorem guard_removes_delete_despite_undo:
  "spec_containsDestructiveVocabulary ''undo that'' \<and>
   cmds (stripDestructiveCommands [DeleteObject ''tree-1''] ''undo that'') = []"
  by (simp add: undo_is_destructive_vocabulary undo_is_not_delete_vocabulary)

lemma strip_guarded:
  "cmds (stripDestructiveCommands cs u) = guardedList u cs"
  "cmds (stripCommand c u) = (if dropped u c then [] else [guardedCommand u c])"
proof (induction cs u and c u rule: stripDestructiveCommands_stripCommand.induct)
qed (auto simp: Let_def dropped_def softened_def withoutTag_def)

text \<open>
  Claim C4, amended. The guard returns the list it was given with its order and its
  batches kept (a batch is never removed, also when it ends up empty), and in that list and
  in every batch of it, at any depth, it removes exactly the \<open>delete_object\<close> commands
  when the utterance has none of delete, remove, erase, clear, get rid, discard, wipe as a
  whole word, and exactly the \<open>cancel_preview_object\<close> commands when it has none of
  cancel, discard, undo; a command of any other type is never removed and stays in its
  place (an update may lose the \<open>semanticTag\<close> of its patch, every other command is
  returned as it is), and \<open>removed\<close> counts the commands removed.
\<close>

theorem guard_removes_by_kind:
  "cmds (stripDestructiveCommands cs u) = guardedList u cs \<and>
   cmds (stripCommand c u) = (if dropped u c then [] else [guardedCommand u c]) \<and>
   guardedCommand u (Batch bs) = Batch (guardedList u bs) \<and>
   ((\<forall>bs. c \<noteq> Batch bs) \<and> (\<forall>j p. c \<noteq> UpdateObject j p \<and> c \<noteq> UpdatePreviewObject j p)
      \<longrightarrow> guardedCommand u c = c) \<and>
   guardedCommand u (UpdateObject i p) = UpdateObject i (withoutTag u p) \<and>
   guardedCommand u (UpdatePreviewObject i p) = UpdatePreviewObject i (withoutTag u p) \<and>
   leafCommands (cmds (stripDestructiveCommands cs u)) =
     map (softened u) (filter (\<lambda>c. \<not> dropped u c) (leafCommands cs)) \<and>
   removed (stripDestructiveCommands cs u) = length (filter (dropped u) (leafCommands cs)) \<and>
   dropped u (DeleteObject i) = (\<not> userExplicitlyWantsDelete u) \<and>
   dropped u (CancelPreviewObject i) = (\<not> userExplicitlyWantsCancel u) \<and>
   (dropped u c \<longrightarrow> (\<exists>j. c = DeleteObject j \<or> c = CancelPreviewObject j))"
proof -
  have other: "(\<forall>bs. c \<noteq> Batch bs) \<and>
      (\<forall>j p. c \<noteq> UpdateObject j p \<and> c \<noteq> UpdatePreviewObject j p) \<longrightarrow> guardedCommand u c = c"
    by (cases c) (simp_all add: softened_def)
  have kinds: "dropped u c \<longrightarrow> (\<exists>j. c = DeleteObject j \<or> c = CancelPreviewObject j)"
    by (simp add: dropped_def split: command.splits)
  have updates: "guardedCommand u (UpdateObject i p) = UpdateObject i (withoutTag u p)"
    "guardedCommand u (UpdatePreviewObject i p) = UpdatePreviewObject i (withoutTag u p)"
    by (simp_all add: softened_def)
  have drops: "dropped u (DeleteObject i) = (\<not> userExplicitlyWantsDelete u)"
    "dropped u (CancelPreviewObject i) = (\<not> userExplicitlyWantsCancel u)"
    by (simp_all add: dropped_def)
  show ?thesis
    using other kinds updates drops strip_guarded(1) [of cs u] strip_guarded(2) [of c u]
      strip_leaves(1) [of cs u]
      strip_removed(1) [of cs u]
    by simp
qed

theorem guard_removes_by_kind_witness:
  "dropped ''add a tree'' (DeleteObject ''tree-1'') \<and>
   cmds (stripDestructiveCommands
     [Batch [DeleteObject ''tree-1'', CommitPreviewObject ''bush-2''], DeleteObject ''tree-3'',
      Batch [CancelPreviewObject ''tree-4'']] ''add a tree'')
     = [Batch [CommitPreviewObject ''bush-2''], Batch []] \<and>
   cmds (stripCommand (DeleteObject ''tree-1'') ''add a tree'') = [] \<and>
   (\<forall>bs. CommitPreviewObject ''bush-2'' \<noteq> Batch bs) \<and>
   (\<forall>j p. CommitPreviewObject ''bush-2'' \<noteq> UpdateObject j p \<and>
      CommitPreviewObject ''bush-2'' \<noteq> UpdatePreviewObject j p) \<and>
   guardedCommand ''add a tree'' (CommitPreviewObject ''bush-2'') = CommitPreviewObject ''bush-2'' \<and>
   cmds (stripCommand (CommitPreviewObject ''bush-2'') ''add a tree'')
     = [CommitPreviewObject ''bush-2''] \<and>
   removed (stripDestructiveCommands
     [Batch [DeleteObject ''tree-1'', CommitPreviewObject ''bush-2''], DeleteObject ''tree-3'',
      Batch [CancelPreviewObject ''tree-4'']] ''add a tree'') = 3"
  using guard_removes_by_kind [of
      "[Batch [DeleteObject ''tree-1'', CommitPreviewObject ''bush-2''], DeleteObject ''tree-3'',
        Batch [CancelPreviewObject ''tree-4'']]"
      "''add a tree''" "DeleteObject ''tree-1''" "[]" "''tree-1''" p]
    guard_removes_by_kind [of "[]" "''add a tree''" "CommitPreviewObject ''bush-2''" "[]" "''tree-1''" p]
  by (simp add: dropped_def softened_def add_a_tree_no_vocabulary)

section \<open>Properties of the validator\<close>

lemma DCS_update_object:
  "map_of kv ''type'' = Some (JStr ''update_object'') \<Longrightarrow>
   DrawingCommandSchema (JObj kv) = (required kv ''id'' zString \<and> required kv ''patch'' PatchSchema)"
  by simp

lemma DCS_update_preview_object:
  "map_of kv ''type'' = Some (JStr ''update_preview_object'') \<Longrightarrow>
   DrawingCommandSchema (JObj kv) = (required kv ''id'' zString \<and> required kv ''patch'' PatchSchema)"
  by simp

lemma DCS_batch:
  "map_of kv ''type'' = Some (JStr ''batch'') \<Longrightarrow>
   DrawingCommandSchema (JObj kv) =
     (case map_of kv ''commands'' of
        Some (JArr inner) \<Rightarrow> list_all DrawingCommandSchema inner | _ \<Rightarrow> False)"
  by simp

declare DrawingCommandSchema.simps [simp del]

lemma DCS_typed:
  assumes "DrawingCommandSchema (JObj kv)"
  obtains t where "map_of kv ''type'' = Some (JStr t)"
  using assms by (auto simp: DrawingCommandSchema.simps split: option.splits json.splits)

lemma DCS_add_object:
  "map_of kv ''type'' = Some (JStr ''add_object'') \<Longrightarrow>
   DrawingCommandSchema (JObj kv) =
     required kv ''object'' (\<lambda>v. SceneObjectSchema v \<and> statusIs ''committed'' v)"
  by (simp add: DrawingCommandSchema.simps)

lemma DCS_add_preview_object:
  "map_of kv ''type'' = Some (JStr ''add_preview_object'') \<Longrightarrow>
   DrawingCommandSchema (JObj kv) =
     required kv ''object'' (\<lambda>v. SceneObjectSchema v \<and> statusIs ''preview'' v)"
  by (simp add: DrawingCommandSchema.simps)

lemma DCS_id_only:
  "map_of kv ''type'' = Some (JStr t) \<Longrightarrow>
   t = ''commit_preview_object'' \<or> t = ''cancel_preview_object'' \<or> t = ''delete_object'' \<Longrightarrow>
   DrawingCommandSchema (JObj kv) = required kv ''id'' zString"
  by (auto simp add: DrawingCommandSchema.simps)

lemma DCS_set_path:
  "map_of kv ''type'' = Some (JStr ''set_path'') \<Longrightarrow>
   DrawingCommandSchema (JObj kv) =
     (required kv ''id'' zString \<and> required kv ''bezierPoints'' (zArray PointSchema) \<and>
      required kv ''widthNear'' (zNumberIn 0 50) \<and> required kv ''widthFar'' (zNumberIn 0 50))"
  by (simp add: DrawingCommandSchema.simps)

lemma DCS_known_type:
  assumes "DrawingCommandSchema (JObj kv)" and "map_of kv ''type'' = Some (JStr t)"
  shows "t \<in> set commandTypes"
proof (rule ccontr)
  assume "t \<notin> set commandTypes"
  then have "\<not> DrawingCommandSchema (JObj kv)"
    using assms(2) by (simp add: DrawingCommandSchema.simps commandTypes_def)
  with assms(1) show False by simp
qed

lemma PatchSchema_keys: "PatchSchema (JObj p) \<longleftrightarrow> set (map fst p) \<subseteq> set patchKeys"
  by (auto simp: PatchSchema_def zObject_def list_all_iff patchKeys_def)

lemma update_with_bad_patch_invalid:
  assumes "map_of cmd ''type'' = Some (JStr t)"
    and "t = ''update_object'' \<or> t = ''update_preview_object''"
    and "map_of cmd ''patch'' = Some (JObj p)"
    and "''id'' \<in> set (map fst p) \<or> ''type'' \<in> set (map fst p)"
  shows "\<not> DrawingCommandSchema (JObj cmd)"
proof -
  have "\<not> PatchSchema (JObj p)"
    using assms(4) by (simp add: PatchSchema_def zObject_def)
  then have "\<not> required cmd ''patch'' PatchSchema"
    using assms(3) by (simp add: required_def)
  with assms(1,2) show ?thesis
    by (auto simp: DCS_update_object DCS_update_preview_object)
qed

lemma valid_partOf: "partOf c d \<Longrightarrow> DrawingCommandSchema d \<Longrightarrow> DrawingCommandSchema c"
proof (induction rule: partOf.induct)
  case (self c)
  then show ?case .
next
  case (inner kv commands d c)
  from inner.prems inner.hyps(1,2) have "list_all DrawingCommandSchema commands"
    by (simp add: DCS_batch)
  with inner.hyps(3) have "DrawingCommandSchema d" by (simp add: list_all_iff)
  then show ?case by (rule inner.IH)
qed

text \<open>
  Claim C9. An update command whose patch object has a key \<open>id\<close> or a key \<open>type\<close>
  makes every envelope that contains it, at the top level or inside batches, fail
  \<open>CommandEnvelopeSchema\<close>; and a patch object passes \<open>PatchSchema\<close> exactly when all
  its keys are among layer, status, transform, semanticTag and shapes.
\<close>

theorem patch_with_id_or_type_rejected:
  assumes "map_of cmd ''type'' = Some (JStr t)"
    and "t = ''update_object'' \<or> t = ''update_preview_object''"
    and "map_of cmd ''patch'' = Some (JObj p)"
    and "''id'' \<in> set (map fst p) \<or> ''type'' \<in> set (map fst p)"
    and "map_of env ''commands'' = Some (JArr cs)" and "d \<in> set cs" and "partOf (JObj cmd) d"
  shows "\<not> CommandEnvelopeSchema (JObj env) \<and>
         (\<forall>q. PatchSchema (JObj q) = (set (map fst q) \<subseteq> set patchKeys))"
proof -
  have "\<not> DrawingCommandSchema (JObj cmd)"
    using assms(1-4) by (rule update_with_bad_patch_invalid)
  with assms(7) have "\<not> DrawingCommandSchema d" using valid_partOf by blast
  with assms(6) have "\<not> list_all DrawingCommandSchema cs" by (auto simp: list_all_iff)
  with assms(5) have "\<not> CommandEnvelopeSchema (JObj env)"
    by (simp add: CommandEnvelopeSchema_def zObject_def required_def zArray_def)
  then show ?thesis by (simp add: PatchSchema_keys)
qed

theorem patch_with_id_or_type_rejected_witness:
  "map_of badUpdate ''type'' = Some (JStr ''update_object'') \<and>
   map_of badUpdate ''patch'' = Some (JObj [(''id'', JStr ''tree-2'')]) \<and>
   ''id'' \<in> set (map fst [(''id'', JStr ''tree-2'')]) \<and>
   partOf (JObj badUpdate)
     (JObj [(''type'', JStr ''batch''), (''commands'', JArr [JObj badUpdate])]) \<and>
   \<not> CommandEnvelopeSchema (JObj badEnvelope)"
proof -
  have h1: "map_of badUpdate ''type'' = Some (JStr ''update_object'')"
    and h3: "map_of badUpdate ''patch'' = Some (JObj [(''id'', JStr ''tree-2'')])"
    by (simp_all add: badUpdate_def)
  have h2: "''update_object'' = ''update_object'' \<or> ''update_object'' = ''update_preview_object''"
    by simp
  have h4: "''id'' \<in> set (map fst [(''id'', JStr ''tree-2'')]) \<or>
            ''type'' \<in> set (map fst [(''id'', JStr ''tree-2'')])" by simp
  have h5: "map_of badEnvelope ''commands'' = Some (JArr [JObj [(''type'', JStr ''batch''),
     (''commands'', JArr [JObj badUpdate])]])" by (simp add: badEnvelope_def)
  have h6: "JObj [(''type'', JStr ''batch''), (''commands'', JArr [JObj badUpdate])]
     \<in> set [JObj [(''type'', JStr ''batch''), (''commands'', JArr [JObj badUpdate])]]" by simp
  have h7: "partOf (JObj badUpdate)
     (JObj [(''type'', JStr ''batch''), (''commands'', JArr [JObj badUpdate])])"
    by (rule partOf.inner [where commands = "[JObj badUpdate]" and d = "JObj badUpdate"])
       (simp_all add: partOf.self)
  from patch_with_id_or_type_rejected [OF h1 h2 h3 h4 h5 h6 h7]
  have "\<not> CommandEnvelopeSchema (JObj badEnvelope)" by simp
  with h1 h3 h7 show ?thesis by simp
qed

section \<open>Properties of the normalizer\<close>

subsection \<open>Valid commands are left as they are\<close>

lemma setProp_same: "map_of kv k = Some v \<Longrightarrow> setProp kv k v = kv"
  by (induction kv) (auto split: if_splits)

lemma delProp_absent: "map_of kv k = None \<Longrightarrow> delProp kv k = kv"
  by (induction kv) (auto simp: delProp_def split: if_splits)

lemma absent_not_key: "map_of kv k = None \<Longrightarrow> k \<notin> set (map fst kv)"
  by (simp add: map_of_eq_None_iff)

lemma undeclared_absent:
  assumes "list_all (\<lambda>k. k \<in> set ks) (map fst kv)" and "k \<notin> set ks"
  shows "map_of kv k = None"
proof -
  from assms have "k \<notin> set (map fst kv)" by (auto simp: list_all_iff)
  then show ?thesis by (simp add: map_of_eq_None_iff)
qed

lemma getProp_JObj [simp]: "getProp (JObj kv) k = map_of kv k"
  by (simp add: getProp_def fieldsOf_def)

lemma fieldsOf_JObj [simp]: "fieldsOf (JObj kv) = kv"
  by (simp add: fieldsOf_def)

lemma truthy_JObj [simp]: "truthy (JObj kv)" "isObjectLike (JObj kv)"
  by (simp_all add: truthy_def isObjectLike_def)

lemma legacy_keys_undeclared:
  "''command_type'' \<notin> set (declaredKeys t)" "''object_id'' \<notin> set (declaredKeys t)"
  "''objectId'' \<notin> set (declaredKeys t)"
  by (simp_all add: declaredKeys_def)

lemma update_keys_undeclared:
  assumes "t = ''update_object'' \<or> t = ''update_preview_object''"
  shows "''transform'' \<notin> set (declaredKeys t)" "''shapes'' \<notin> set (declaredKeys t)"
    "''object'' \<notin> set (declaredKeys t)"
  using assms by (auto simp: declaredKeys_def)

text \<open>What validity and exactness give for a command.\<close>

lemma exact_keys:
  assumes "exactCommand (JObj kv)" and "map_of kv ''type'' = Some (JStr t)"
  shows "list_all (\<lambda>k. k \<in> set (declaredKeys t)) (map fst kv)"
  using assms by simp

lemma exact_inner:
  assumes "exactCommand (JObj kv)" and "map_of kv ''type'' = Some (JStr t)"
    and "map_of kv ''commands'' = Some (JArr cs)"
  shows "list_all exactCommand cs"
  using assms by simp

lemma SceneObjectSchema_JObj:
  assumes "SceneObjectSchema obj"
  obtains okv where "obj = JObj okv"
  using assms by (cases obj) (simp_all add: SceneObjectSchema_def zObject_def)

lemma legacy_id:
  assumes v: "DrawingCommandSchema (JObj kv)" and x: "exactCommand (JObj kv)"
  shows "normalizeLegacyCommand toStr now (JObj kv) = JObj kv"
proof -
  from v obtain t where t: "map_of kv ''type'' = Some (JStr t)" by (rule DCS_typed)
  note keys = exact_keys [OF x t]
  have ct: "map_of kv ''command_type'' = None" and oid: "map_of kv ''object_id'' = None"
    using keys legacy_keys_undeclared by (auto intro: undeclared_absent)
  have obj: "truthyO (map_of kv ''object'')"
    if "t = ''add_preview_object'' \<or> t = ''add_object''"
  proof -
    from that v t have "required kv ''object'' SceneObjectSchema"
      by (auto simp: DCS_add_object DCS_add_preview_object required_def split: option.splits)
    then obtain ob where "map_of kv ''object'' = Some ob" "SceneObjectSchema ob"
      by (auto simp: required_def split: option.splits)
    then show ?thesis by (auto simp: truthyO_def elim: SceneObjectSchema_JObj)
  qed
  show ?thesis
    using t ct oid obj by (auto simp: normalizeLegacyCommand_def Let_def)
qed

lemma valid_id_string:
  assumes v: "DrawingCommandSchema (JObj kv)" and t: "map_of kv ''type'' = Some (JStr t)"
    and req: "t \<in> set COMMANDS_THAT_REQUIRE_TARGET_ID"
  obtains i where "map_of kv ''id'' = Some (JStr i)"
proof -
  from req have "t = ''update_preview_object'' \<or> t = ''commit_preview_object'' \<or>
      t = ''cancel_preview_object'' \<or> t = ''update_object'' \<or> t = ''delete_object'' \<or>
      t = ''set_path''"
    by (simp add: COMMANDS_THAT_REQUIRE_TARGET_ID_def)
  then have "required kv ''id'' zString"
  proof (elim disjE)
    assume "t = ''update_preview_object''"
    with v t show "required kv ''id'' zString" by (simp add: DCS_update_preview_object)
  next
    assume "t = ''commit_preview_object''"
    with v t show "required kv ''id'' zString" using DCS_id_only [of kv t] by simp
  next
    assume "t = ''cancel_preview_object''"
    with v t show "required kv ''id'' zString" using DCS_id_only [of kv t] by simp
  next
    assume "t = ''update_object''"
    with v t show "required kv ''id'' zString" by (simp add: DCS_update_object)
  next
    assume "t = ''delete_object''"
    with v t show "required kv ''id'' zString" using DCS_id_only [of kv t] by simp
  next
    assume "t = ''set_path''"
    with v t show "required kv ''id'' zString" by (simp add: DCS_set_path)
  qed
  then obtain i where "map_of kv ''id'' = Some (JStr i)"
    by (auto simp: required_def zString_def split: option.splits json.splits)
  then show ?thesis by (rule that)
qed

lemma targetIdStep_id:
  assumes v: "DrawingCommandSchema (JObj kv)" and x: "exactCommand (JObj kv)"
  shows "targetIdStep kv = kv"
proof -
  from v obtain t where t: "map_of kv ''type'' = Some (JStr t)" by (rule DCS_typed)
  note keys = exact_keys [OF x t]
  have o1: "map_of kv ''objectId'' = None" and o2: "map_of kv ''object_id'' = None"
    using keys legacy_keys_undeclared by (auto intro: undeclared_absent)
  show ?thesis
  proof (cases "t \<in> set COMMANDS_THAT_REQUIRE_TARGET_ID")
    case False
    with t show ?thesis by (simp add: targetIdStep_def)
  next
    case True
    from v t True obtain i where i: "map_of kv ''id'' = Some (JStr i)" by (rule valid_id_string)
    have n1: "''objectId'' \<notin> set (map fst kv)" by (rule absent_not_key [OF o1])
    have n2: "''object_id'' \<notin> set (map fst kv)" by (rule absent_not_key [OF o2])
    show ?thesis
    proof (cases "i = []")
      case True
      with t \<open>t \<in> set COMMANDS_THAT_REQUIRE_TARGET_ID\<close> i o1 o2 n1 n2 show ?thesis
        by (simp add: targetIdStep_def nonEmptyString_def Let_def)
    next
      case False
      with t \<open>t \<in> set COMMANDS_THAT_REQUIRE_TARGET_ID\<close> i n1 n2 setProp_same [OF i] show ?thesis
        by (simp add: targetIdStep_def nonEmptyString_def Let_def)
    qed
  qed
qed

lemma map_id_on: "(\<And>x. x \<in> set xs \<Longrightarrow> f x = x) \<Longrightarrow> map f xs = xs"
  by (induction xs) simp_all

lemma valid_batch_inner:
  assumes "DrawingCommandSchema (JObj kv)" and "map_of kv ''type'' = Some (JStr ''batch'')"
  obtains cs where "map_of kv ''commands'' = Some (JArr cs)" "list_all DrawingCommandSchema cs"
  using assms by (auto simp: DCS_batch split: option.splits json.splits)

lemma normalizeTargetId_id:
  "DrawingCommandSchema c \<Longrightarrow> exactCommand c \<Longrightarrow> normalizeTargetId c = c"
proof (induction c rule: measure_induct_rule [where f = size])
  case (less c)
  show ?case
  proof (cases c)
    case (JObj kv)
    from less.prems have v: "DrawingCommandSchema (JObj kv)" and x: "exactCommand (JObj kv)"
      by (simp_all add: JObj)
    note step = targetIdStep_id [OF v x]
    show ?thesis
    proof (cases "map_of kv ''type'' = Some (JStr ''batch'')")
      case False
      with step show ?thesis by (simp add: JObj)
    next
      case True
      from v True obtain cs where cs: "map_of kv ''commands'' = Some (JArr cs)"
        and vs: "list_all DrawingCommandSchema cs" by (rule valid_batch_inner)
      from exact_inner [OF x True cs] have xs: "list_all exactCommand cs" .
      have "map normalizeTargetId cs = cs"
      proof (rule map_id_on)
        fix d assume d: "d \<in> set cs"
        then have "size d < size c" using cs by (simp only: JObj size_field_element)
        moreover from d vs xs have "DrawingCommandSchema d" "exactCommand d"
          by (simp_all add: list_all_iff)
        ultimately show "normalizeTargetId d = d" by (rule less.IH)
      qed
      with step True cs setProp_same [OF cs] show ?thesis by (simp add: JObj)
    qed
  qed (simp_all)
qed

lemma valid_update_patch:
  assumes v: "DrawingCommandSchema (JObj kv)" and t: "map_of kv ''type'' = Some (JStr t)"
    and u: "t = ''update_object'' \<or> t = ''update_preview_object''"
  obtains p where "map_of kv ''patch'' = Some (JObj p)"
proof -
  from u have "required kv ''patch'' PatchSchema"
  proof
    assume "t = ''update_object''"
    with v t show ?thesis by (simp add: DCS_update_object)
  next
    assume "t = ''update_preview_object''"
    with v t show ?thesis by (simp add: DCS_update_preview_object)
  qed
  then obtain p where "map_of kv ''patch'' = Some (JObj p)"
    by (auto simp: required_def PatchSchema_def zObject_def split: option.splits json.splits)
  then show ?thesis by (rule that)
qed

lemma foldIntoPatch_id:
  assumes v: "DrawingCommandSchema (JObj kv)" and x: "exactCommand (JObj kv)"
    and t: "map_of kv ''type'' = Some (JStr t)"
    and u: "t = ''update_object'' \<or> t = ''update_preview_object''"
  shows "foldIntoPatch kv = JObj kv"
proof -
  note keys = exact_keys [OF x t]
  have a1: "map_of kv ''transform'' = None" and a2: "map_of kv ''shapes'' = None"
    and a3: "map_of kv ''object'' = None"
    using keys update_keys_undeclared [OF u] by (auto intro: undeclared_absent)
  from v t u obtain p where p: "map_of kv ''patch'' = Some (JObj p)" by (rule valid_update_patch)
  show ?thesis
    using a1 a2 a3 p setProp_same [OF p]
    by (simp add: foldIntoPatch_def Let_def delProp_absent)
qed

lemma normalizeMissingPatch_id:
  "DrawingCommandSchema c \<Longrightarrow> exactCommand c \<Longrightarrow> normalizeMissingPatch c = c"
proof (induction c rule: measure_induct_rule [where f = size])
  case (less c)
  show ?case
  proof (cases c)
    case (JObj kv)
    from less.prems have v: "DrawingCommandSchema (JObj kv)" and x: "exactCommand (JObj kv)"
      by (simp_all add: JObj)
    from v obtain t where t: "map_of kv ''type'' = Some (JStr t)" by (rule DCS_typed)
    consider (batch) "t = ''batch''"
      | (update) "t = ''update_object'' \<or> t = ''update_preview_object''"
      | (other) "t \<noteq> ''batch''" "t \<noteq> ''update_object''" "t \<noteq> ''update_preview_object''"
      by blast
    then show ?thesis
    proof cases
      case batch
      with t have tb: "map_of kv ''type'' = Some (JStr ''batch'')" by simp
      from v tb obtain cs where cs: "map_of kv ''commands'' = Some (JArr cs)"
        and vs: "list_all DrawingCommandSchema cs" by (rule valid_batch_inner)
      from exact_inner [OF x tb cs] have xs: "list_all exactCommand cs" .
      have "map normalizeMissingPatch cs = cs"
      proof (rule map_id_on)
        fix d assume d: "d \<in> set cs"
        then have "size d < size c" using cs by (simp only: JObj size_field_element)
        moreover from d vs xs have "DrawingCommandSchema d" "exactCommand d"
          by (simp_all add: list_all_iff)
        ultimately show "normalizeMissingPatch d = d" by (rule less.IH)
      qed
      with tb cs setProp_same [OF cs] show ?thesis by (simp add: JObj isArray_def)
    next
      case update
      from foldIntoPatch_id [OF v x t update] t update show ?thesis
        by (auto simp: JObj)
    next
      case other
      with t show ?thesis by (simp add: JObj)
    qed
  qed (simp_all)
qed

lemma VectorShapeSchema_line_points:
  assumes "VectorShapeSchema (JObj kv)" and "map_of kv ''type'' = Some (JStr ''line'')"
  shows "isArray (map_of kv ''points'')"
  using assms
  by (auto simp: VectorShapeSchema_def zObject_def LineSchema_def required_def isArray_def
      PointsSchema_def zArrayLen_def split: option.splits json.splits)

lemma normalizeLineShape_id: "VectorShapeSchema s \<Longrightarrow> normalizeLineShape s = s"
proof (cases s)
  case (JObj kv)
  assume "VectorShapeSchema s"
  with JObj VectorShapeSchema_line_points [of kv] show ?thesis
    by (auto simp: normalizeLineShape_def)
qed (simp_all add: normalizeLineShape_def)

lemma normalizeLineShapes_id:
  "list_all VectorShapeSchema ss \<Longrightarrow> map normalizeLineShape ss = ss"
  by (rule map_id_on) (simp add: list_all_iff normalizeLineShape_id)

lemma normalizeShapesInObject_id:
  assumes "SceneObjectSchema obj"
  shows "normalizeShapesInObject obj = obj"
proof -
  from assms obtain okv where o: "obj = JObj okv" by (rule SceneObjectSchema_JObj)
  from assms o obtain ss where ss: "map_of okv ''shapes'' = Some (JArr ss)"
    and vs: "list_all VectorShapeSchema ss"
    by (auto simp: SceneObjectSchema_def zObject_def required_def zArrayLen_def
        split: option.splits json.splits)
  from ss vs setProp_same [OF ss] show ?thesis
    by (simp add: normalizeShapesInObject_def o normalizeLineShapes_id)
qed

lemma valid_JObj:
  assumes "DrawingCommandSchema c"
  obtains kv where "c = JObj kv"
  using assms by (cases c) (simp_all add: DrawingCommandSchema.simps)

lemma normalizeCommand_id:
  assumes v: "DrawingCommandSchema c" and x: "exactCommand c" and ps: "patchShapesValid c"
  shows "normalizeCommand toStr now c = Inr c"
proof -
  from v obtain kv where c: "c = JObj kv" by (rule valid_JObj)
  from v x have vk: "DrawingCommandSchema (JObj kv)" and xk: "exactCommand (JObj kv)"
    by (simp_all add: c)
  have l: "normalizeLegacyCommand toStr now c = c"
    unfolding c by (rule legacy_id [OF vk xk])
  have n: "normalizeMissingPatch (normalizeTargetId (normalizeLegacyCommand toStr now c)) = c"
    by (simp only: l normalizeTargetId_id [OF v x] normalizeMissingPatch_id [OF v x])
  from vk obtain t where t: "map_of kv ''type'' = Some (JStr t)" by (rule DCS_typed)
  consider (add) "t = ''add_object'' \<or> t = ''add_preview_object''"
    | (update) "t = ''update_object'' \<or> t = ''update_preview_object''"
    | (other) "t \<noteq> ''add_object''" "t \<noteq> ''add_preview_object''" "t \<noteq> ''update_object''"
        "t \<noteq> ''update_preview_object''"
    by blast
  then show ?thesis
  proof cases
    case add
    then have "required kv ''object'' SceneObjectSchema"
    proof
      assume "t = ''add_object''"
      with vk t show ?thesis by (auto simp: DCS_add_object required_def split: option.splits)
    next
      assume "t = ''add_preview_object''"
      with vk t show ?thesis
        by (auto simp: DCS_add_preview_object required_def split: option.splits)
    qed
    then obtain ob where ob: "map_of kv ''object'' = Some ob" and vo: "SceneObjectSchema ob"
      by (auto simp: required_def split: option.splits)
    from vo have tr: "truthy ob" by (auto elim: SceneObjectSchema_JObj)
    from add t ob tr normalizeShapesInObject_id [OF vo] setProp_same [OF ob] show ?thesis
      unfolding normalizeCommand_def n by (auto simp: c Let_def truthyO_def)
  next
    case update
    from vk t update obtain p where p: "map_of kv ''patch'' = Some (JObj p)"
      by (rule valid_update_patch)
    show ?thesis
    proof (cases "map_of p ''shapes''")
      case None
      with update t p show ?thesis
        unfolding normalizeCommand_def n by (auto simp: c Let_def)
    next
      case (Some s)
      with ps p obtain ss where s: "s = JArr ss" and vs: "list_all VectorShapeSchema ss"
        by (auto simp: patchShapesValid_def c optional_def zArray_def split: json.splits)
      from Some s have sh: "map_of p ''shapes'' = Some (JArr ss)" by simp
      from update t p sh normalizeLineShapes_id [OF vs] setProp_same [OF sh] setProp_same [OF p]
      show ?thesis
        unfolding normalizeCommand_def n by (auto simp: c Let_def truthy_def)
    qed
  next
    case other
    with t show ?thesis
      unfolding normalizeCommand_def n by (simp add: c Let_def)
  qed
qed

lemma normalizeEach_id:
  assumes "list_all DrawingCommandSchema cs" and "list_all exactCommand cs"
    and "list_all patchShapesValid cs"
  shows "normalizeEach toStr clock i cs = Inr cs"
  using assms by (induction cs arbitrary: i) (simp_all add: normalizeCommand_id)

text \<open>
  Claim C7, amended. Take an envelope that passes \<open>CommandEnvelopeSchema\<close>, in which
  the envelope and its commands, those inside batches included, have no key beyond the
  ones their schema declares, and in which the \<open>shapes\<close> of the patch of every
  top-level update command are absent or an array of valid vector shapes. Then
  \<open>normalizeToEnvelope\<close> followed by \<open>normalizeCommandArray\<close> returns it unchanged,
  whatever the clock reads.
\<close>

theorem normalization_keeps_wellformed_envelope:
  assumes "CommandEnvelopeSchema e" and "exactEnvelope e" and "topLevelPatchShapesValid e"
  shows "normalizedCandidate toStr clock e = Inr e"
proof -
  from assms(1) obtain env where e: "e = JObj env"
    by (cases e) (simp_all add: CommandEnvelopeSchema_def zObject_def)
  from assms(1) e obtain cs where cs: "map_of env ''commands'' = Some (JArr cs)"
    and vs: "list_all DrawingCommandSchema cs"
    by (auto simp: CommandEnvelopeSchema_def zObject_def required_def zArray_def
        split: option.splits json.splits)
  from assms(2) e cs have keys: "list_all (\<lambda>k. k \<in> set [''commands'', ''notes'', ''refused'',
      ''refusalReason'']) (map fst env)" and xs: "list_all exactCommand cs"
    by (simp_all add: exactEnvelope_def)
  from assms(3) e cs have ps: "list_all patchShapesValid cs"
    by (simp add: topLevelPatchShapesValid_def)
  have noenv: "map_of env ''envelope'' = None"
    using keys by (rule undeclared_absent) simp
  have has: "hasKey e ''commands''"
    using cs by (simp add: hasKey_def e) (metis domI dom_map_of_conv_image_fst)
  have env1: "normalizeToEnvelope e = e"
    using noenv has by (simp add: normalizeToEnvelope_def e)
  have arr: "normalizeCommandArray toStr clock (JArr cs) = Inr (JArr cs)"
    by (simp add: normalizeCommandArray_def normalizeEach_id [OF vs xs ps])
  show ?thesis
    using cs arr setProp_same [OF cs]
    by (simp add: normalizedCandidate_def env1 Let_def) (simp add: e)
qed

subsection \<open>Valid envelopes that normalization rewrites\<close>

lemma legacyLine_valid: "CommandEnvelopeSchema legacyLineEnvelope"
  by code_simp

lemma legacyLine_exact: "exactEnvelope legacyLineEnvelope"
  by code_simp

lemma legacyLine_changed:
  "normalizedCandidate (\<lambda>j. []) (\<lambda>i. []) legacyLineEnvelope =
     Inr (JObj [(''commands'', JArr [JObj [(''type'', JStr ''update_object''), (''id'', JStr ''fence-1''),
       (''patch'', JObj [(''shapes'', JArr [JObj [(''id'', JStr ''rail''), (''type'', JStr ''line''),
          (''points'', JArr [JNum 0, JNum 0, JNum 10, JNum 10])]])])]])])"
  by code_simp

lemma strayKey_valid: "CommandEnvelopeSchema strayKeyEnvelope"
  by code_simp

lemma strayKey_changed:
  "normalizedCandidate (\<lambda>j. []) (\<lambda>i. []) strayKeyEnvelope =
     Inr (JObj [(''commands'', JArr [JObj [(''type'', JStr ''delete_object''),
       (''id'', JStr ''fence-1'')]])])"
  by code_simp

text \<open>
  Claim C7, as stated, fails. Both envelopes pass \<open>CommandEnvelopeSchema\<close>, and
  normalization changes both: \<open>PatchSchema\<close> accepts any value as \<open>shapes\<close>, so a
  line with \<open>x1, y1, x2, y2\<close> in a patch is valid and is rewritten to \<open>points\<close>; and
  the schemas of the commands ignore unknown keys, so a stray \<open>objectId\<close> is valid and
  is removed.
\<close>

theorem normalization_changes_valid_envelopes:
  "CommandEnvelopeSchema legacyLineEnvelope \<and> exactEnvelope legacyLineEnvelope \<and>
   normalizedCandidate (\<lambda>j. []) (\<lambda>i. []) legacyLineEnvelope \<noteq> Inr legacyLineEnvelope \<and>
   CommandEnvelopeSchema strayKeyEnvelope \<and>
   normalizedCandidate (\<lambda>j. []) (\<lambda>i. []) strayKeyEnvelope \<noteq> Inr strayKeyEnvelope"
  by (simp add: legacyLine_valid legacyLine_exact legacyLine_changed strayKey_valid
      strayKey_changed)
     (simp add: legacyLineEnvelope_def strayKeyEnvelope_def)

lemma plain_valid: "CommandEnvelopeSchema plainEnvelope"
  by code_simp

lemma plain_exact: "exactEnvelope plainEnvelope"
  by code_simp

lemma plain_shapes: "topLevelPatchShapesValid plainEnvelope"
  by code_simp

theorem normalization_keeps_wellformed_envelope_witness:
  "CommandEnvelopeSchema plainEnvelope \<and> exactEnvelope plainEnvelope \<and>
   topLevelPatchShapesValid plainEnvelope \<and>
   normalizedCandidate (\<lambda>j. []) (\<lambda>i. []) plainEnvelope = Inr plainEnvelope"
  using normalization_keeps_wellformed_envelope [OF plain_valid plain_exact plain_shapes]
    plain_valid plain_exact plain_shapes
  by simp

end
